theory Spec2Isabelle
  imports Main "HOL-Library.AList"
begin

section \<open>Statement splitter\<close>

text \<open>
  The deploy loop of \<^verbatim>\<open>main.py\<close> splits a script with
  \<^verbatim>\<open>re.split(r"(?im)^\s*GO\s*$", sql_script_content)\<close> and keeps
  \<^verbatim>\<open>stmt.strip()\<close> of every piece whose strip is not empty.
  Script text is a list of characters; a character stands for the code point of the
  same number, so the model covers the texts whose code points are below 256.
\<close>

definition is_space :: "char \<Rightarrow> bool" where
  \<comment> \<open>\<^verbatim>\<open>\s\<close> of a str pattern and \<^verbatim>\<open>str.isspace\<close>: the code points
      9 to 13, 28 to 32, 133 and 160.\<close>
  "is_space c = (of_char c \<in> {9, 10, 11, 12, 13, 28, 29, 30, 31, 32, 133, 160 :: nat})"

definition strip :: "string \<Rightarrow> string" where
  \<comment> \<open>\<^verbatim>\<open>str.strip()\<close>: leading and trailing whitespace removed.\<close>
  "strip s = rev (dropWhile is_space (rev (dropWhile is_space s)))"

definition at_eol :: "string \<Rightarrow> bool" where
  \<comment> \<open>\<^verbatim>\<open>$\<close> under MULTILINE: the end of the text, or just before a newline.\<close>
  "at_eol s = (case s of [] \<Rightarrow> True | c # _ \<Rightarrow> c = CHR ''\<newline>'')"

fun star_space :: "(string \<Rightarrow> 'a option) \<Rightarrow> string \<Rightarrow> 'a option" where
  \<comment> \<open>greedy \<^verbatim>\<open>\s*\<close> followed by the rest of the pattern \<open>k\<close>: take as many
      whitespace characters as there are, and give one back at a time while \<open>k\<close> fails.\<close>
  "star_space k [] = k []"
| "star_space k (c # cs) =
     (if is_space c
      then (case star_space k cs of Some r \<Rightarrow> Some r | None \<Rightarrow> k (c # cs))
      else k (c # cs))"

definition lit_GO :: "(string \<Rightarrow> 'a option) \<Rightarrow> string \<Rightarrow> 'a option" where
  \<comment> \<open>the literal \<^verbatim>\<open>GO\<close> under IGNORECASE, followed by \<open>k\<close>.\<close>
  "lit_GO k s =
     (case s of
        c1 # c2 # rest \<Rightarrow>
          if (c1 = CHR ''G'' \<or> c1 = CHR ''g'') \<and> (c2 = CHR ''O'' \<or> c2 = CHR ''o'')
          then k rest else None
      | _ \<Rightarrow> None)"

definition match_sep :: "string \<Rightarrow> string option" where
  \<comment> \<open>\<^verbatim>\<open>\s*GO\s*$\<close> matched at the head of \<open>s\<close>; the result is the text
      after the match.\<close>
  "match_sep s =
     star_space (lit_GO (star_space (\<lambda>r. if at_eol r then Some r else None))) s"

lemma star_space_le:
  assumes "\<And>r u. k r = Some u \<Longrightarrow> length u \<le> length r"
  shows "star_space k s = Some u \<Longrightarrow> length u \<le> length s"
proof (induction s)
  case Nil
  then show ?case by (auto dest: assms)
next
  case (Cons c cs)
  then show ?case
    using assms by (fastforce split: if_splits option.splits)
qed

lemma star_space_less:
  assumes "\<And>r u. k r = Some u \<Longrightarrow> length u < length r"
  shows "star_space k s = Some u \<Longrightarrow> length u < length s"
proof (induction s)
  case Nil
  then show ?case by (auto dest: assms)
next
  case (Cons c cs)
  then show ?case
    using assms by (fastforce split: if_splits option.splits)
qed

lemma lit_GO_less:
  assumes "\<And>r u. k r = Some u \<Longrightarrow> length u \<le> length r"
  shows "lit_GO k s = Some u \<Longrightarrow> length u < length s"
  using assms by (fastforce simp: lit_GO_def split: list.splits if_splits)

lemma match_sep_length: "match_sep s = Some u \<Longrightarrow> length u < length s"
  unfolding match_sep_def
  by (erule star_space_less [rotated], erule lit_GO_less [rotated],
      erule star_space_le [rotated]) (simp split: if_splits)

definition at_bol :: "string \<Rightarrow> bool" where
  \<comment> \<open>\<^verbatim>\<open>^\<close> under MULTILINE, from the text before the position (last character
      first): the start of the text, or just after a newline.\<close>
  "at_bol seen = (case seen of [] \<Rightarrow> True | c # _ \<Rightarrow> c = CHR ''\<newline>'')"

function split_from :: "string \<Rightarrow> string \<Rightarrow> string \<Rightarrow> string list" where
  \<comment> \<open>\<^verbatim>\<open>re.split\<close> from a position: \<open>seen\<close> is the text already scanned and
      \<open>piece\<close> the piece being collected (both last character first), \<open>s\<close> the text
      ahead. The leftmost match ends the piece, and the scan resumes where the match ends.\<close>
  "split_from seen piece s =
     (case (if at_bol seen then match_sep s else None) of
        Some rest \<Rightarrow>
          rev piece # split_from (rev (take (length s - length rest) s) @ seen) [] rest
      | None \<Rightarrow>
          (case s of
             [] \<Rightarrow> [rev piece]
           | c # cs \<Rightarrow> split_from (c # seen) (c # piece) cs))"
  by pat_completeness auto

termination
  by (relation "measure (\<lambda>(seen, piece, s). length s)")
     (auto split: if_splits dest: match_sep_length)

definition re_split :: "string \<Rightarrow> string list" where
  "re_split text = split_from [] [] text"

definition split_statements :: "string \<Rightarrow> string list" where
  \<comment> \<open>\<^verbatim>\<open>[stmt.strip() for stmt in re.split(...) if stmt.strip()]\<close>\<close>
  "split_statements text = filter (\<lambda>s. s \<noteq> []) (map strip (re_split text))"

section \<open>The splitter as the specification describes it\<close>

text \<open>
  The specification works on lines: the text is cut at its newlines, a line is a
  separator when it holds the keyword and nothing else but whitespace, the lines between
  two separators form a segment, and every segment is trimmed and dropped when empty.
\<close>

fun lines_of :: "string \<Rightarrow> string list" where
  \<comment> \<open>the text cut at each newline\<close>
  "lines_of [] = [[]]"
| "lines_of (c # cs) =
     (if c = CHR ''\<newline>'' then [] # lines_of cs
      else (c # hd (lines_of cs)) # tl (lines_of cs))"

definition is_go_line :: "string \<Rightarrow> bool" where
  \<comment> \<open>the keyword in any case, alone on its line but for surrounding whitespace\<close>
  "is_go_line l = (strip l \<in> {''GO'', ''Go'', ''gO'', ''go''})"

fun segments_from :: "string \<Rightarrow> string list \<Rightarrow> string list" where
  \<comment> \<open>the segments of a list of lines, \<open>cur\<close> being the segment under way; a line
      that joins a segment is followed by a newline\<close>
  "segments_from cur [] = [cur]"
| "segments_from cur (l # ls) =
     (if is_go_line l then cur # segments_from [] ls
      else segments_from (cur @ l @ ''\<newline>'') ls)"

definition spec_split :: "string \<Rightarrow> string list" where
  "spec_split text = filter (\<lambda>s. s \<noteq> []) (map strip (segments_from [] (lines_of text)))"

section \<open>The world around the program\<close>

text \<open>
  The database, the file system, the environment variables and the library functions
  \<^verbatim>\<open>hashlib.sha256\<close> and the \<^verbatim>\<open>utf-8-sig\<close> codec are outside
  \<^verbatim>\<open>main.py\<close>; they are parameters of the model, collected in a record.

  A database state holds the data that the scripts act on and the rows of the table
  \<^verbatim>\<open>CUSTOM_StoredProcedureDeploymentMetadata\<close> (\<open>None\<close> while the table does not
  exist). The table has \<^verbatim>\<open>script_name\<close> as primary key: its rows are an
  association list from script name to hash.
\<close>

record 'u db =
  udata :: 'u
  meta :: "(string \<times> string) list option"

datatype 'a exec_result = Done 'a | Raised 'a

datatype db_call = CallCreate | CallSelect | CallMerge string

record 'u world =
  environ :: "string \<rightharpoonup> string"
    \<comment> \<open>\<^verbatim>\<open>os.getenv\<close>\<close>
  connect_ok :: "string \<Rightarrow> nat \<Rightarrow> bool"
    \<comment> \<open>whether \<^verbatim>\<open>pyodbc.connect(cnxn_str)\<close> succeeds at the attempt of that index\<close>
  run_sql :: "string \<Rightarrow> 'u db \<Rightarrow> 'u db exec_result"
    \<comment> \<open>\<^verbatim>\<open>cursor.execute(stmt)\<close> of a script statement in the open transaction:
        \<open>Done\<close> with the new state, or \<open>Raised\<close> with whatever the statement left\<close>
  db_fault :: "db_call \<Rightarrow> bool"
    \<comment> \<open>a \<^verbatim>\<open>pyodbc.Error\<close> forced on one of the program's own statements\<close>
  scripts_dir :: "(string \<times> string) list option"
    \<comment> \<open>\<^verbatim>\<open>sql/stored_procedures\<close>: \<open>None\<close> when the path does not exist, else
        the file names in the order of \<^verbatim>\<open>os.listdir\<close>, each with its bytes\<close>
  sha256_hex :: "string \<Rightarrow> string"
    \<comment> \<open>\<^verbatim>\<open>hashlib.sha256(bytes).hexdigest()\<close>\<close>
  decode_utf8_sig :: "string \<Rightarrow> string option"
    \<comment> \<open>the \<^verbatim>\<open>utf-8-sig\<close> codec; \<open>None\<close> is \<^verbatim>\<open>UnicodeDecodeError\<close>\<close>

datatype level = INFO | WARNING | ERROR

datatype event =
    Connect string
  | Sleep nat
  | CreateTable
  | SelectHashes
  | Merge string string
  | Execute string
  | Commit
  | Rollback
  | Close
  | Log level string

text \<open>
  The state of a run: the committed database, the database as the open transaction sees
  it, and the calls and log lines issued so far, oldest first. \<^verbatim>\<open>commit\<close>,
  \<^verbatim>\<open>rollback\<close>, \<^verbatim>\<open>close\<close>, \<^verbatim>\<open>cnxn.cursor()\<close> and
  \<^verbatim>\<open>os.listdir\<close> are taken to succeed, and the listed files to be readable.
  \<^verbatim>\<open>sys.exit(n)\<close> raises \<^verbatim>\<open>SystemExit\<close>, which no handler of the
  program catches: it is the left summand, with the exit code.
\<close>

record 'u state =
  committed :: "'u db"
  working :: "'u db"
  trace :: "event list"

type_synonym ('u, 'a) result = "(nat \<times> 'u state) + ('a \<times> 'u state)"

definition emit :: "event \<Rightarrow> 'u state \<Rightarrow> 'u state" where
  "emit e st = st\<lparr>trace := trace st @ [e]\<rparr>"

definition logging :: "level \<Rightarrow> string \<Rightarrow> 'u state \<Rightarrow> 'u state" where
  "logging l msg st = emit (Log l msg) st"

definition commit :: "'u state \<Rightarrow> 'u state" where
  "commit st = emit Commit (st\<lparr>committed := working st\<rparr>)"

definition rollback :: "'u state \<Rightarrow> 'u state" where
  "rollback st = emit Rollback (st\<lparr>working := committed st\<rparr>)"

definition close :: "'u state \<Rightarrow> 'u state" where
  \<comment> \<open>closing a connection discards the open transaction\<close>
  "close st = emit Close (st\<lparr>working := committed st\<rparr>)"

definition sys_exit :: "nat \<Rightarrow> 'u state \<Rightarrow> ('u, 'a) result" where
  "sys_exit n st = Inl (n, st)"

section \<open>Connection provider\<close>

definition truthy :: "string option \<Rightarrow> bool" where
  \<comment> \<open>the truth value of what \<^verbatim>\<open>os.getenv\<close> returns: \<^verbatim>\<open>None\<close> and the
      empty string are false\<close>
  "truthy v = (case v of None \<Rightarrow> False | Some s \<Rightarrow> s \<noteq> [])"

definition fmt :: "string option \<Rightarrow> string" where
  \<comment> \<open>a value inside an f-string\<close>
  "fmt v = (case v of None \<Rightarrow> ''None'' | Some s \<Rightarrow> s)"

definition cnxn_str ::
  "string option \<Rightarrow> string option \<Rightarrow> string option \<Rightarrow> string option \<Rightarrow> string option \<Rightarrow> string"
where
  "cnxn_str server database username password port =
     ''DRIVER={ODBC Driver 17 for SQL Server};'' @
     ''SERVER='' @ fmt server @ '','' @ fmt port @ '';'' @
     ''DATABASE='' @ fmt database @ '';'' @
     ''UID='' @ fmt username @ '';'' @
     ''PWD='' @ fmt password"

fun connect_loop :: "'u world \<Rightarrow> string \<Rightarrow> nat \<Rightarrow> nat \<Rightarrow> 'u state \<Rightarrow> bool \<times> 'u state" where
  \<comment> \<open>\<^verbatim>\<open>for i in range(max_retries)\<close>, from attempt \<open>i\<close> with \<open>n\<close> attempts left;
      \<open>True\<close> is the \<^verbatim>\<open>return cnxn\<close> inside the loop\<close>
  "connect_loop w cs i 0 st = (False, st)"
| "connect_loop w cs i (Suc n) st =
     (let st1 = emit (Connect cs) st in
      if connect_ok w cs i
      then (True, logging INFO ''Successfully connected to the database.'' st1)
      else connect_loop w cs (i + 1) n
             (emit (Sleep 5) (logging WARNING ''Database connection error'' st1)))"

definition get_db_connection :: "'u world \<Rightarrow> 'u state \<Rightarrow> ('u, unit) result" where
  "get_db_connection w st =
     (let server = environ w ''DB_SERVER'';
          database = environ w ''DB_DATABASE'';
          username = environ w ''DB_USERNAME'';
          password = environ w ''DB_PASSWORD'';
          port = environ w ''DB_PORT'';
          st1 = logging INFO ''Attempting to connect'' st
      in if \<not> (truthy server \<and> truthy database \<and> truthy username \<and> truthy password)
         then sys_exit 1
                (logging ERROR ''Database connection environment variables must be set: DB_SERVER, DB_DATABASE, DB_USERNAME, DB_PASSWORD, DB_PORT'' st1)
         else
           (case connect_loop w (cnxn_str server database username password port) 0 10 st1 of
              (True, st2) \<Rightarrow> Inr ((), st2)
            | (False, st2) \<Rightarrow>
                sys_exit 1
                  (logging ERROR ''Failed to connect to the database after multiple retries.'' st2)))"

section \<open>Metadata store\<close>

definition create_table :: "'u db \<Rightarrow> 'u db" where
  \<comment> \<open>\<^verbatim>\<open>IF NOT EXISTS (...) CREATE TABLE ...\<close>\<close>
  "create_table d = (case meta d of None \<Rightarrow> d\<lparr>meta := Some []\<rparr> | Some rows \<Rightarrow> d)"

definition merge_row :: "string \<Rightarrow> string \<Rightarrow> 'u db \<Rightarrow> 'u db" where
  \<comment> \<open>the \<^verbatim>\<open>MERGE\<close> statement on an existing table: the row of that name gets the
      new hash, or a new row is inserted\<close>
  "merge_row script_name new_hash d = d\<lparr>meta := map_option (AList.update script_name new_hash) (meta d)\<rparr>"

definition ensure_metadata_table_exists :: "'u world \<Rightarrow> 'u state \<Rightarrow> ('u, unit) result" where
  "ensure_metadata_table_exists w st =
     (let st1 = emit CreateTable st in
      if db_fault w CallCreate
      then sys_exit 1 (logging ERROR ''Error ensuring metadata table exists'' st1)
      else Inr ((), logging INFO ''Ensured table exists.''
                      (commit (st1\<lparr>working := create_table (working st1)\<rparr>))))"

definition get_deployed_hashes :: "'u world \<Rightarrow> 'u state \<Rightarrow> (string \<rightharpoonup> string) \<times> 'u state" where
  "get_deployed_hashes w st =
     (let st1 = emit SelectHashes st in
      case (if db_fault w CallSelect then None else meta (working st1)) of
        None \<Rightarrow> (Map.empty, logging WARNING ''Error fetching deployed hashes (may be first run)'' st1)
      | Some rows \<Rightarrow> (fold (\<lambda>(n, h) deployed_hashes. deployed_hashes(n \<mapsto> h)) rows Map.empty, st1))"

definition update_deployment_metadata ::
  "'u world \<Rightarrow> string \<Rightarrow> string \<Rightarrow> 'u state \<Rightarrow> ('u, unit) result"
where
  "update_deployment_metadata w script_name new_hash st =
     (let st1 = emit (Merge script_name new_hash) st in
      if db_fault w (CallMerge script_name) \<or> meta (working st1) = None
      then sys_exit 1 (logging ERROR (''Error updating metadata for '' @ script_name) st1)
      else Inr ((), logging INFO (''Metadata updated for '' @ script_name)
                      (commit (st1\<lparr>working := merge_row script_name new_hash (working st1)\<rparr>))))"

section \<open>Deployment engine\<close>

record counts =
  deployed_count :: nat
  skipped_count :: nat
  error_count :: nat

definition endswith :: "string \<Rightarrow> string \<Rightarrow> bool" where
  "endswith s suffix =
     (length suffix \<le> length s \<and> drop (length s - length suffix) s = suffix)"

definition splitext_root :: "string \<Rightarrow> string" where
  \<comment> \<open>\<^verbatim>\<open>os.path.splitext(filename)[0]\<close> of a name without directory separator:
      the name up to its last dot, unless there is no dot or only dots come before it\<close>
  "splitext_root p =
     (let stem = rev (tl (dropWhile (\<lambda>c. c \<noteq> CHR ''.'') (rev p))) in
      if CHR ''.'' \<in> set p \<and> (\<exists>c \<in> set stem. c \<noteq> CHR ''.'') then stem else p)"

fun execute_statements ::
  "'u world \<Rightarrow> string \<Rightarrow> nat \<Rightarrow> string list \<Rightarrow> counts \<Rightarrow> 'u state \<Rightarrow> counts \<times> 'u state"
where
  \<comment> \<open>\<^verbatim>\<open>for i, stmt in enumerate(statements, 1)\<close>: execute and commit; a failure
      is logged and counted, the transaction rolled back, and the loop left\<close>
  "execute_statements w filename i [] c st = (c, st)"
| "execute_statements w filename i (stmt # stmts) c st =
     (let st1 = emit (Execute stmt) st in
      case run_sql w stmt (working st1) of
        Done d \<Rightarrow>
          execute_statements w filename (i + 1) stmts c
            (logging INFO (''Executed statement from '' @ filename)
               (commit (st1\<lparr>working := d\<rparr>)))
      | Raised d \<Rightarrow>
          (c\<lparr>error_count := error_count c + 1\<rparr>,
           rollback (logging ERROR (''Error in '' @ filename) (st1\<lparr>working := d\<rparr>))))"

definition process_file ::
  "'u world \<Rightarrow> (string \<rightharpoonup> string) \<Rightarrow> string \<times> string \<Rightarrow> counts \<Rightarrow> 'u state
     \<Rightarrow> ('u, counts) result"
where
  \<comment> \<open>the body of \<^verbatim>\<open>for filename in os.listdir(SP_SCRIPTS_DIR)\<close> for one file\<close>
  "process_file w deployed_hashes file c st =
     (let filename = fst file; bytes = snd file in
      if \<not> endswith filename ''.sql'' then Inr (c, st)
      else
        let script_name = splitext_root filename;
            local_hash = sha256_hex w bytes
        in
          if (case deployed_hashes script_name of None \<Rightarrow> False | Some h \<Rightarrow> h = local_hash)
          then Inr (c\<lparr>skipped_count := skipped_count c + 1\<rparr>,
                    logging INFO (''Skipping '' @ filename @ '': No changes detected.'') st)
          else
            let st1 = logging INFO (''Deploying '' @ filename @ '' (New or changed).'') st in
            case decode_utf8_sig w bytes of
              None \<Rightarrow>
                Inr (c\<lparr>error_count := error_count c + 1\<rparr>,
                     rollback (logging ERROR (''Unexpected error processing '' @ filename) st1))
            | Some sql_script_content \<Rightarrow>
                (case execute_statements w filename 1 (split_statements sql_script_content) c st1 of
                   (c2, st2) \<Rightarrow>
                     if error_count c2 = 0
                     then
                       (case update_deployment_metadata w script_name local_hash st2 of
                          Inl x \<Rightarrow> Inl x
                        | Inr (u, st3) \<Rightarrow>
                            Inr (c2\<lparr>deployed_count := deployed_count c2 + 1\<rparr>,
                                 logging INFO (''Successfully deployed: '' @ filename) st3))
                     else Inr (c2, st2)))"

fun deploy_files ::
  "'u world \<Rightarrow> (string \<rightharpoonup> string) \<Rightarrow> (string \<times> string) list \<Rightarrow> counts \<Rightarrow> 'u state
     \<Rightarrow> ('u, counts) result"
where
  "deploy_files w deployed_hashes [] c st = Inr (c, st)"
| "deploy_files w deployed_hashes (file # files) c st =
     (case process_file w deployed_hashes file c st of
        Inl x \<Rightarrow> Inl x
      | Inr (c', st') \<Rightarrow> deploy_files w deployed_hashes files c' st')"

text \<open>
  A run ends in \<^verbatim>\<open>sys.exit\<close> on every path. Its result is the exit code, the counts
  of the summary lines when the run reaches them, and the final state.
\<close>

record 'u run_result =
  exit_code :: nat
  summary :: "counts option"
  final :: "'u state"

definition fatal :: "nat \<times> 'u state \<Rightarrow> 'u run_result" where
  "fatal x = \<lparr>exit_code = fst x, summary = None, final = snd x\<rparr>"

definition deploy_stored_procedures :: "'u world \<Rightarrow> 'u state \<Rightarrow> 'u run_result" where
  "deploy_stored_procedures w st =
     (case get_db_connection w st of
        Inl x \<Rightarrow> fatal x
      | Inr (u, st1) \<Rightarrow>
          (case ensure_metadata_table_exists w st1 of
             Inl x \<Rightarrow> fatal x
           | Inr (u, st2) \<Rightarrow>
               (case get_deployed_hashes w st2 of
                  (deployed_hashes, st3) \<Rightarrow>
                    (case scripts_dir w of
                       None \<Rightarrow>
                         fatal (1, logging ERROR ''Stored procedures directory not found.'' st3)
                     | Some files \<Rightarrow>
                         (case deploy_files w deployed_hashes files
                                 \<lparr>deployed_count = 0, skipped_count = 0, error_count = 0\<rparr> st3 of
                            Inl x \<Rightarrow> fatal x
                          | Inr (c, st4) \<Rightarrow>
                              (let st5 = logging INFO ''--- Deployment Summary ---'' (close st4) in
                               if error_count c > 0
                               then \<lparr>exit_code = 1, summary = Some c,
                                     final = logging ERROR ''Deployment failed due to errors. Check logs.'' st5\<rparr>
                               else \<lparr>exit_code = 0, summary = Some c,
                                     final = logging INFO ''Deployment completed successfully.'' st5\<rparr>))))))"

definition start :: "'u db \<Rightarrow> 'u state" where
  \<comment> \<open>the state a process starts in: nothing pending, nothing issued yet\<close>
  "start d = \<lparr>committed = d, working = d, trace = []\<rparr>"

section \<open>A concrete world\<close>

text \<open>
  A small world for running the model: the scripts act on a list of the statements
  executed so far, the statement \<^verbatim>\<open>FAIL\<close> raises after a partial effect, the hash
  of a file is the file itself, every byte sequence decodes to itself, and no fault is
  forced.
\<close>

definition demo_sql :: "string \<Rightarrow> string list db \<Rightarrow> string list db exec_result" where
  "demo_sql stmt d =
     (if stmt = ''FAIL'' then Raised (d\<lparr>udata := udata d @ [''partial'']\<rparr>)
      else Done (d\<lparr>udata := udata d @ [stmt]\<rparr>))"

definition demo_env :: "string \<rightharpoonup> string" where
  "demo_env =
     [''DB_SERVER'' \<mapsto> ''srv'', ''DB_DATABASE'' \<mapsto> ''db'', ''DB_USERNAME'' \<mapsto> ''sa'',
      ''DB_PASSWORD'' \<mapsto> ''pw'', ''DB_PORT'' \<mapsto> ''1433'']"

definition demo_world :: "(string \<times> string) list option \<Rightarrow> string list world" where
  "demo_world dir =
     \<lparr>environ = demo_env, connect_ok = (\<lambda>cs i. True), run_sql = demo_sql,
      db_fault = (\<lambda>call. False), scripts_dir = dir, sha256_hex = (\<lambda>bytes. bytes),
      decode_utf8_sig = Some\<rparr>"

definition fresh :: "string list db" where
  "fresh = \<lparr>udata = [], meta = None\<rparr>"

section \<open>Observations on a state\<close>

fun executed :: "event list \<Rightarrow> string list" where
  \<comment> \<open>the script statements passed to \<^verbatim>\<open>cursor.execute\<close>, in order\<close>
  "executed [] = []"
| "executed (Execute s # es) = s # executed es"
| "executed (e # es) = executed es"

fun merges :: "event list \<Rightarrow> (string \<times> string) list" where
  \<comment> \<open>the metadata upserts issued, in order\<close>
  "merges [] = []"
| "merges (Merge n h # es) = (n, h) # merges es"
| "merges (e # es) = merges es"

definition result_state :: "('u, 'a) result \<Rightarrow> 'u state" where
  "result_state r = (case r of Inl (n, st) \<Rightarrow> st | Inr (a, st) \<Rightarrow> st)"

section \<open>Inputs for running the model\<close>

definition zero_counts :: counts where
  "zero_counts = \<lparr>deployed_count = 0, skipped_count = 0, error_count = 0\<rparr>"

definition empty_table :: "string list db" where
  "empty_table = \<lparr>udata = [], meta = Some []\<rparr>"

definition five_scripts :: "(string \<times> string) list" where
  "five_scripts =
     [(''a.sql'', ''FAIL''), (''b.sql'', ''B''), (''c.sql'', ''C''), (''d.sql'', ''D''),
      (''e.sql'', ''E'')]"

definition no_port_world :: "string list world" where
  "no_port_world = (demo_world None)\<lparr>environ := demo_env(''DB_PORT'' := None)\<rparr>"

definition faulty_world :: "string list world" where
  \<comment> \<open>three scripts; the upsert for \<^verbatim>\<open>b\<close> fails\<close>
  "faulty_world =
     (demo_world (Some [(''a.sql'', ''A''), (''b.sql'', ''B''), (''c.sql'', ''C'')]))
       \<lparr>db_fault := (\<lambda>call. call = CallMerge ''b'')\<rparr>"

definition read_fail_world :: "string list world" where
  \<comment> \<open>one script; the read of the metadata fails\<close>
  "read_fail_world =
     (demo_world (Some [(''p.sql'', ''S1'')]))\<lparr>db_fault := (\<lambda>call. call = CallSelect)\<rparr>"

definition recorded_p :: "string list db" where
  \<comment> \<open>a database whose table records the script \<^verbatim>\<open>p\<close> with the fingerprint of its file\<close>
  "recorded_p = \<lparr>udata = [], meta = Some [(''p'', ''S1'')]\<rparr>"

definition two_scripts :: "(string \<times> string) list" where
  "two_scripts = [(''a.sql'', ''A''), (''notes.txt'', ''x''), (''b.sql'', ''B'')]"

section \<open>Notions used in the proofs\<close>

definition sql_files :: "(string \<times> string) list \<Rightarrow> (string \<times> string) list" where
  \<comment> \<open>the files of the directory that the loop looks at\<close>
  "sql_files files = filter (\<lambda>f. endswith (fst f) ''.sql'') files"

definition script_name :: "string \<times> string \<Rightarrow> string" where
  "script_name f = splitext_root (fst f)"

definition preserves_metadata :: "'u world \<Rightarrow> bool" where
  \<comment> \<open>no script statement that succeeds changes the metadata table\<close>
  "preserves_metadata w = (\<forall>stmt d d'. run_sql w stmt d = Done d' \<longrightarrow> meta d' = meta d)"

definition blank :: "string \<Rightarrow> bool" where
  "blank w = (\<forall>c \<in> set w. is_space c)"

definition trim_all :: "string list \<Rightarrow> string list" where
  "trim_all ps = filter (\<lambda>s. s \<noteq> []) (map strip ps)"

abbreviation eol_k :: "string \<Rightarrow> string option" where
  "eol_k \<equiv> (\<lambda>r. if at_eol r then Some r else None)"

definition is_G :: "char \<Rightarrow> bool" where
  "is_G c = (c = CHR ''G'' \<or> c = CHR ''g'')"

definition is_O :: "char \<Rightarrow> bool" where
  "is_O c = (c = CHR ''O'' \<or> c = CHR ''o'')"

definition first_line :: "string \<Rightarrow> string" where
  "first_line s = takeWhile (\<lambda>c. c \<noteq> CHR ''\<newline>'') s"

definition segments_mid :: "bool \<Rightarrow> string \<Rightarrow> string list \<Rightarrow> string list" where
  \<comment> \<open>the segments of lines of which the first can be a separator only if \<open>b\<close> holds:
      without \<open>b\<close> it is the rest of a line already begun\<close>
  "segments_mid b cur ls =
     (if b then segments_from cur ls
      else (case ls of [] \<Rightarrow> [cur] | l # ls' \<Rightarrow> segments_from (cur @ l @ ''\<newline>'') ls'))"

section \<open>Whitespace and trimming\<close>

lemma blank_simps [simp]:
  "blank []" "blank (c # w) = (is_space c \<and> blank w)" "blank (u @ v) = (blank u \<and> blank v)"
  "blank (rev w) = blank w"
  by (auto simp: blank_def)

lemma is_space_newline [simp]: "is_space CHR ''\<newline>''"
  by (simp add: is_space_def)

lemma not_space_GO [simp]:
  "\<not> is_space CHR ''G''" "\<not> is_space CHR ''g''" "\<not> is_space CHR ''O''" "\<not> is_space CHR ''o''"
  by (simp_all add: is_space_def)

lemma dropWhile_blank [simp]: "blank w \<Longrightarrow> dropWhile is_space (w @ x) = dropWhile is_space x"
  by (induction w) auto

lemma dropWhile_blank_Nil [simp]: "blank w \<Longrightarrow> dropWhile is_space w = []"
  using dropWhile_blank [of w "[]"] by simp

lemma strip_blank [simp]: "blank w \<Longrightarrow> strip w = []"
  by (simp add: strip_def)

lemma strip_blank_left [simp]: "blank w \<Longrightarrow> strip (w @ x) = strip x"
  by (simp add: strip_def)

lemma strip_blank_right [simp]: "blank w \<Longrightarrow> strip (x @ w) = strip x"
proof (cases "blank x")
  case True
  assume "blank w"
  with True show ?thesis by simp
next
  case False
  assume w: "blank w"
  from False obtain c where c: "c \<in> set x" "\<not> is_space c"
    by (auto simp: blank_def)
  then have "dropWhile is_space (x @ w) = dropWhile is_space x @ w"
    by (simp add: dropWhile_append1)
  with w show ?thesis
    by (simp add: strip_def)
qed

lemma strip_newline_right [simp]: "strip (x @ ''\<newline>'') = strip x"
  by (rule strip_blank_right) simp

lemma strip_decomp:
  "\<exists>a b. l = a @ strip l @ b \<and> blank a \<and> blank b"
proof -
  let ?m = "dropWhile is_space l"
  have 1: "l = takeWhile is_space l @ ?m" by simp
  have 2: "rev ?m = takeWhile is_space (rev ?m) @ dropWhile is_space (rev ?m)" by simp
  then have "?m = rev (dropWhile is_space (rev ?m)) @ rev (takeWhile is_space (rev ?m))"
    by (metis rev_append rev_rev_ident)
  then have "l = takeWhile is_space l @ strip l @ rev (takeWhile is_space (rev ?m))"
    using 1 by (simp add: strip_def)
  moreover have "blank (takeWhile is_space l)"
    by (auto simp: blank_def dest: set_takeWhileD)
  moreover have "blank (rev (takeWhile is_space (rev ?m)))"
    by (auto simp: blank_def dest: set_takeWhileD)
  ultimately show ?thesis by blast
qed

lemma trim_all_Cons: "trim_all (p # ps) = trim_all [p] @ trim_all ps"
  by (simp add: trim_all_def)

lemma trim_all_blank [simp]: "blank w \<Longrightarrow> trim_all [w] = []"
  by (simp add: trim_all_def)

section \<open>What a match of the separator pattern consists of\<close>

lemma star_space_skip:
  assumes "\<And>c cs. is_space c \<Longrightarrow> k (c # cs) = None"
  shows "star_space k s = k (dropWhile is_space s)"
  by (induction s) (auto simp: assms split: option.splits)

lemma lit_GO_space: "is_space c \<Longrightarrow> lit_GO k (c # cs) = None"
  by (auto simp: lit_GO_def split: list.splits)

lemma match_sep_eq:
  "match_sep s = lit_GO (star_space eol_k) (dropWhile is_space s)"
  unfolding match_sep_def by (rule star_space_skip) (rule lit_GO_space)

lemma star_eol_sound:
  "star_space eol_k r = Some u \<Longrightarrow> \<exists>w. r = w @ u \<and> blank w \<and> at_eol u"
proof (induction r)
  case Nil
  then show ?case by (auto split: if_splits)
next
  case (Cons c cs)
  show ?case
  proof (cases "is_space c \<and> star_space eol_k cs \<noteq> None")
    case True
    with Cons.prems have "star_space eol_k cs = Some u"
      by (auto split: option.splits)
    from Cons.IH [OF this] obtain w where "cs = w @ u" "blank w" "at_eol u"
      by blast
    with True have "c # cs = (c # w) @ u \<and> blank (c # w) \<and> at_eol u"
      by simp
    then show ?thesis by blast
  next
    case False
    with Cons.prems have "eol_k (c # cs) = Some u"
      by (auto split: option.splits if_splits)
    then have "c # cs = [] @ u \<and> blank [] \<and> at_eol u"
      by (auto split: if_splits)
    then show ?thesis by blast
  qed
qed

lemma star_eol_complete:
  "blank b \<Longrightarrow> at_eol r \<Longrightarrow> star_space eol_k (b @ r) \<noteq> None"
proof (induction b)
  case Nil
  then show ?case
    by (cases r) (auto simp: at_eol_def split: option.splits)
next
  case (Cons c b)
  then show ?case
    by (auto split: option.splits)
qed

lemma match_sep_sound:
  assumes "match_sep s = Some rest"
  shows "\<exists>w1 g o' w2. s = w1 @ g # o' # w2 @ rest \<and> blank w1 \<and> blank w2 \<and>
           is_G g \<and> is_O o' \<and> at_eol rest"
proof -
  let ?r1 = "dropWhile is_space s"
  from assms have m: "lit_GO (star_space eol_k) ?r1 = Some rest"
    by (simp add: match_sep_eq)
  then obtain g o' r2 where r1: "?r1 = g # o' # r2" and go: "is_G g" "is_O o'"
    and k: "star_space eol_k r2 = Some rest"
    by (auto simp: lit_GO_def is_G_def is_O_def split: list.splits if_splits)
  from star_eol_sound [OF k] obtain w2 where w2: "r2 = w2 @ rest" "blank w2" "at_eol rest"
    by blast
  have "s = takeWhile is_space s @ ?r1" by simp
  with r1 w2 have "s = takeWhile is_space s @ g # o' # w2 @ rest" by simp
  moreover have "blank (takeWhile is_space s)"
    by (auto simp: blank_def dest: set_takeWhileD)
  ultimately show ?thesis using w2 go by blast
qed

lemma is_go_line_decomp:
  assumes "is_go_line l"
  shows "\<exists>a g o' b. l = a @ g # o' # b \<and> blank a \<and> blank b \<and> is_G g \<and> is_O o'"
proof -
  from strip_decomp [of l] obtain a b where ab: "l = a @ strip l @ b" "blank a" "blank b"
    by blast
  from assms obtain g o' where "strip l = [g, o']" "is_G g" "is_O o'"
    by (auto simp: is_go_line_def is_G_def is_O_def)
  with ab have "l = a @ g # o' # b" by simp
  with ab \<open>is_G g\<close> \<open>is_O o'\<close> show ?thesis by blast
qed

lemma match_sep_go_line:
  assumes "blank a" "blank b" "is_G g" "is_O o'" "at_eol r"
  shows "match_sep (a @ g # o' # b @ r) \<noteq> None"
proof -
  from assms(3) have g: "\<not> is_space g" by (auto simp: is_G_def)
  have "dropWhile is_space (a @ g # o' # b @ r) = g # o' # b @ r"
    using assms(1) g by simp
  then have "match_sep (a @ g # o' # b @ r) = star_space eol_k (b @ r)"
    using assms(3,4) by (simp add: match_sep_eq lit_GO_def is_G_def is_O_def)
  with star_eol_complete [OF assms(2,5)] show ?thesis by simp
qed

lemma at_eol_dropWhile: "at_eol (dropWhile (\<lambda>c. c \<noteq> CHR ''\<newline>'') s)"
  by (induction s) (auto simp: at_eol_def)

lemma match_sep_complete:
  assumes "is_go_line (first_line s)"
  shows "match_sep s \<noteq> None"
proof -
  let ?r = "dropWhile (\<lambda>c. c \<noteq> CHR ''\<newline>'') s"
  from is_go_line_decomp [OF assms] obtain a g o' b where
    l: "first_line s = a @ g # o' # b" "blank a" "blank b" "is_G g" "is_O o'"
    by blast
  have "match_sep ((a @ g # o' # b) @ ?r) \<noteq> None"
    using match_sep_go_line [OF l(2,3,4,5) at_eol_dropWhile [of s]] by simp
  then show ?thesis
    unfolding l(1) [symmetric] first_line_def by simp
qed

section \<open>Lines and segments\<close>

lemma lines_of_nonempty [simp]: "lines_of s \<noteq> []"
  by (cases s) auto

lemma hd_lines_of: "hd (lines_of s) = first_line s"
  by (induction s) (auto simp: first_line_def)

lemma not_go_blank: "blank l \<Longrightarrow> \<not> is_go_line l"
  by (simp add: is_go_line_def)

lemma segments_step:
  assumes "b \<Longrightarrow> \<not> is_go_line (first_line (c # cs))"
  shows "segments_mid b cur (lines_of (c # cs))
           = segments_mid (c = CHR ''\<newline>'') (cur @ [c]) (lines_of cs)"
proof (cases "c = CHR ''\<newline>''")
  case True
  then show ?thesis
    by (simp add: segments_mid_def not_go_blank)
next
  case False
  obtain l0 ls where ls: "lines_of cs = l0 # ls"
    by (cases "lines_of cs") auto
  with hd_lines_of [of cs] have l0: "l0 = first_line cs" by simp
  from False have fl: "first_line (c # cs) = c # first_line cs"
    by (simp add: first_line_def)
  from False ls l0 fl assms show ?thesis
    by (auto simp: segments_mid_def)
qed

lemma trim_all_segments_blank:
  "blank w \<Longrightarrow> trim_all (segments_from (w @ cur) ls) = trim_all (segments_from cur ls)"
proof (induction ls arbitrary: cur)
  case Nil
  then show ?case by (simp add: trim_all_def)
next
  case (Cons l ls)
  show ?case
  proof (cases "is_go_line l")
    case True
    with Cons.prems show ?thesis
      by (simp add: trim_all_def)
  next
    case False
    with Cons.IH [OF Cons.prems, of "cur @ l @ ''\<newline>''"] show ?thesis
      by simp
  qed
qed

lemma trim_all_mid_blank:
  "blank w \<Longrightarrow> trim_all (segments_mid b (w @ cur) ls) = trim_all (segments_mid b cur ls)"
  using trim_all_segments_blank [of w]
  by (cases ls) (auto simp: segments_mid_def trim_all_def)

lemma segments_mid_eol:
  "at_eol rest \<Longrightarrow> segments_mid b cur (lines_of rest) = segments_mid b' cur (lines_of rest)"
  by (cases rest) (auto simp: segments_mid_def at_eol_def not_go_blank)

lemma first_line_blank:
  "blank w \<Longrightarrow> at_eol rest \<Longrightarrow> blank (first_line (w @ rest))"
proof (induction w)
  case Nil
  then show ?case by (cases rest) (auto simp: first_line_def at_eol_def)
next
  case (Cons c w)
  then show ?case by (auto simp: first_line_def)
qed

lemma segments_blank_prefix:
  "blank w \<Longrightarrow> at_eol rest \<Longrightarrow>
     trim_all (segments_mid b cur (lines_of (w @ rest)))
       = trim_all (segments_mid b' (cur @ w) (lines_of rest))"
proof (induction w arbitrary: b cur)
  case Nil
  then show ?case
    using segments_mid_eol [of rest b cur b'] by simp
next
  case (Cons c w)
  from Cons.prems have bw: "blank w" by simp
  from first_line_blank [OF Cons.prems] have "\<not> is_go_line (first_line ((c # w) @ rest))"
    by (rule not_go_blank)
  then have "segments_mid b cur (lines_of ((c # w) @ rest))
               = segments_mid (c = CHR ''\<newline>'') (cur @ [c]) (lines_of (w @ rest))"
    using segments_step [of b c "w @ rest" cur] by simp
  with Cons.IH [OF bw Cons.prems(2), of "c = CHR ''\<newline>''" "cur @ [c]"] show ?case
    by simp
qed

lemma lines_of_line:
  "CHR ''\<newline>'' \<notin> set l \<Longrightarrow> at_eol tail \<Longrightarrow> lines_of (l @ tail) = l # tl (lines_of tail)"
proof (induction l)
  case Nil
  then show ?case by (cases tail) (auto simp: at_eol_def)
next
  case (Cons c l)
  then show ?case by auto
qed

lemma segments_after_line:
  "at_eol tail \<Longrightarrow>
     trim_all (segments_from [] (tl (lines_of tail))) = trim_all (segments_mid b [] (lines_of tail))"
proof (cases tail)
  case Nil
  then show ?thesis
    by (simp add: segments_mid_def trim_all_def not_go_blank)
next
  case (Cons c t)
  assume "at_eol tail"
  with Cons have c: "c = CHR ''\<newline>''" by (simp add: at_eol_def)
  have "trim_all (segments_from (''\<newline>'' @ []) (lines_of t)) = trim_all (segments_from [] (lines_of t))"
    by (rule trim_all_segments_blank) simp
  with Cons c show ?thesis
    by (simp add: segments_mid_def not_go_blank)
qed

lemma is_go_line_GO:
  assumes "blank p" "blank q" "is_G g" "is_O o'"
  shows "is_go_line (p @ g # o' # q)"
proof -
  have "strip (p @ ([g, o'] @ q)) = strip ([g, o'] @ q)"
    by (rule strip_blank_left [OF assms(1)])
  also have "\<dots> = strip [g, o']"
    by (rule strip_blank_right [OF assms(2)])
  finally have "strip (p @ g # o' # q) = strip [g, o']"
    by simp
  moreover have "strip [g, o'] = [g, o']"
    using assms(3,4) by (auto simp: strip_def is_G_def is_O_def)
  ultimately have "strip (p @ g # o' # q) = [g, o']"
    by simp
  then show ?thesis
    using assms(3,4) by (auto simp: is_go_line_def is_G_def is_O_def)
qed

lemma takeWhile_dropWhile_append:
  "takeWhile P xs @ dropWhile P xs @ ys = xs @ ys"
  by (metis append_assoc takeWhile_dropWhile_id)

lemma at_eol_append: "at_eol z \<Longrightarrow> at_eol rest \<Longrightarrow> at_eol (z @ rest)"
  by (cases z) (auto simp: at_eol_def)

lemma segments_go_line:
  assumes "blank p" "CHR ''\<newline>'' \<notin> set p" "blank w2" "is_G g" "is_O o'" "at_eol rest"
  shows "trim_all (segments_from cur (lines_of (p @ g # o' # w2 @ rest)))
           = trim_all [cur] @ trim_all (segments_mid b [] (lines_of rest))"
proof -
  let ?nl = "\<lambda>c. c \<noteq> CHR ''\<newline>''"
  let ?a = "takeWhile ?nl w2" and ?z = "dropWhile ?nl w2"
  let ?l = "p @ g # o' # ?a" and ?tail = "?z @ rest"
  have ba: "blank ?a" and bz: "blank ?z"
    using assms(3) by (auto simp: blank_def dest: set_takeWhileD set_dropWhileD)
  have tail: "at_eol ?tail"
    by (rule at_eol_append [OF at_eol_dropWhile assms(6)])
  have nl: "CHR ''\<newline>'' \<notin> set ?l"
    using assms(2,4,5) by (auto simp: is_G_def is_O_def dest: set_takeWhileD)
  have eq: "p @ g # o' # w2 @ rest = ?l @ ?tail"
    by (simp add: takeWhile_dropWhile_append)
  have "lines_of (p @ g # o' # w2 @ rest) = lines_of (?l @ ?tail)"
    by (simp only: eq)
  also have "\<dots> = ?l # tl (lines_of ?tail)"
    by (rule lines_of_line [OF nl tail])
  finally have lines: "lines_of (p @ g # o' # w2 @ rest) = ?l # tl (lines_of ?tail)" .
  have go: "is_go_line ?l"
    by (rule is_go_line_GO [OF assms(1) ba assms(4,5)])
  have "segments_from cur (lines_of (p @ g # o' # w2 @ rest))
          = cur # segments_from [] (tl (lines_of ?tail))"
    by (simp only: lines segments_from.simps go if_True)
  then have "trim_all (segments_from cur (lines_of (p @ g # o' # w2 @ rest)))
               = trim_all [cur] @ trim_all (segments_from [] (tl (lines_of ?tail)))"
    by (simp add: trim_all_def)
  also have "trim_all (segments_from [] (tl (lines_of ?tail)))
               = trim_all (segments_mid b [] (lines_of ?tail))"
    by (rule segments_after_line [OF tail])
  also have "\<dots> = trim_all (segments_mid b ([] @ ?z) (lines_of rest))"
    by (rule segments_blank_prefix [OF bz assms(6)])
  also have "\<dots> = trim_all (segments_mid b [] (lines_of rest))"
    using trim_all_mid_blank [OF bz, of b "[]"] by simp
  finally show ?thesis .
qed

lemma segments_match:
  assumes "blank w1" "blank w2" "is_G g" "is_O o'" "at_eol rest"
  shows "trim_all (segments_from cur (lines_of (w1 @ g # o' # w2 @ rest)))
           = trim_all [cur] @ trim_all (segments_mid b [] (lines_of rest))"
proof (cases "CHR ''\<newline>'' \<in> set w1")
  case False
  then show ?thesis
    by (rule segments_go_line [OF assms(1) _ assms(2-5)])
next
  case True
  from split_list_last [OF True] obtain x p where
    w1: "w1 = x @ CHR ''\<newline>'' # p" and p: "CHR ''\<newline>'' \<notin> set p"
    by blast
  from assms(1) w1 have bx: "blank x" and bp: "blank p" by simp_all
  let ?t = "p @ g # o' # w2 @ rest"
  have "trim_all (segments_from cur (lines_of (w1 @ g # o' # w2 @ rest)))
          = trim_all (segments_mid True cur (lines_of (x @ CHR ''\<newline>'' # ?t)))"
    by (simp add: w1 segments_mid_def)
  also have "\<dots> = trim_all (segments_mid True (cur @ x) (lines_of (CHR ''\<newline>'' # ?t)))"
    by (rule segments_blank_prefix [OF bx]) (simp add: at_eol_def)
  also have "\<dots> = trim_all (segments_from (cur @ x @ ''\<newline>'') (lines_of ?t))"
    by (simp add: segments_mid_def not_go_blank)
  also have "\<dots> = trim_all [cur @ x @ ''\<newline>''] @ trim_all (segments_mid b [] (lines_of rest))"
    by (rule segments_go_line [OF bp p assms(2-5)])
  also have "trim_all [cur @ x @ ''\<newline>''] = trim_all [cur]"
    using bx strip_blank_right [of "x @ ''\<newline>''" cur] by (simp add: trim_all_def)
  finally show ?thesis .
qed

lemma at_bol_Cons [simp]: "at_bol (c # seen) = (c = CHR ''\<newline>'')"
  by (simp add: at_bol_def)

lemma split_from_segments:
  "trim_all (split_from seen piece s)
     = trim_all (segments_mid (at_bol seen) (rev piece) (lines_of s))"
proof (induction seen piece s rule: split_from.induct)
  case (1 seen piece s)
  show ?case
  proof (cases "if at_bol seen then match_sep s else None")
    case (Some rest)
    then have bol: "at_bol seen" and m: "match_sep s = Some rest"
      by (auto split: if_splits)
    from match_sep_sound [OF m] obtain w1 g o' w2 where
      s: "s = w1 @ g # o' # w2 @ rest" and f: "blank w1" "blank w2" "is_G g" "is_O o'" "at_eol rest"
      by blast
    let ?seen = "rev (take (length s - length rest) s) @ seen"
    have "split_from seen piece s = rev piece # split_from ?seen [] rest"
      using Some by (subst split_from.simps) simp
    then have "trim_all (split_from seen piece s)
                 = trim_all [rev piece] @ trim_all (split_from ?seen [] rest)"
      by (simp add: trim_all_def)
    also have "trim_all (split_from ?seen [] rest)
                 = trim_all (segments_mid (at_bol ?seen) [] (lines_of rest))"
      using "1.IH"(2) [OF Some] by simp
    also have "trim_all [rev piece] @ trim_all (segments_mid (at_bol ?seen) [] (lines_of rest))
                 = trim_all (segments_from (rev piece) (lines_of (w1 @ g # o' # w2 @ rest)))"
      by (rule segments_match [OF f, symmetric])
    finally show ?thesis
      using bol s by (simp add: segments_mid_def)
  next
    case None
    show ?thesis
    proof (cases s)
      case Nil
      with None have "split_from seen piece s = [rev piece]"
        by (subst split_from.simps) simp
      with Nil show ?thesis
        by (simp add: segments_mid_def trim_all_def not_go_blank)
    next
      case (Cons c cs)
      with None have "split_from seen piece s = split_from (c # seen) (c # piece) cs"
        by (subst split_from.simps) simp
      then have "trim_all (split_from seen piece s)
                   = trim_all (segments_mid (c = CHR ''\<newline>'') (rev piece @ [c]) (lines_of cs))"
        using "1.IH"(1) [OF None Cons] by simp
      moreover have "at_bol seen \<Longrightarrow> \<not> is_go_line (first_line (c # cs))"
        using None Cons match_sep_complete [of s] by auto
      then have "segments_mid (at_bol seen) (rev piece) (lines_of (c # cs))
                   = segments_mid (c = CHR ''\<newline>'') (rev piece @ [c]) (lines_of cs)"
        by (rule segments_step)
      ultimately show ?thesis
        using Cons by simp
    qed
  qed
qed

lemma concat_lines_of:
  "concat (map (\<lambda>l. l @ ''\<newline>'') (lines_of s)) = s @ ''\<newline>''"
proof (induction s)
  case Nil
  then show ?case by simp
next
  case (Cons c cs)
  obtain l0 ls where ls: "lines_of cs = l0 # ls"
    by (cases "lines_of cs") auto
  with Cons show ?case by auto
qed

lemma segments_from_no_separator:
  "\<forall>l \<in> set ls. \<not> is_go_line l \<Longrightarrow>
     segments_from cur ls = [cur @ concat (map (\<lambda>l. l @ ''\<newline>'') ls)]"
  by (induction ls arbitrary: cur) auto

text \<open>
  C5. For every script text the statements that the deploy loop obtains are those of
  the specification: the text is cut at the lines that hold nothing but the keyword
  \<^verbatim>\<open>GO\<close> (in any case, with optional whitespace around it), every segment is
  trimmed, the empty ones are dropped, and the order is kept. The text of the
  specification's example gives its three statements. A text without such a line is
  never cut: it is one statement, or none when it is blank.
\<close>

theorem splitter_refines_spec:
  "split_statements script = spec_split script
   \<and> split_statements ''stmtA\<newline>GO\<newline>stmtB\<newline>  go  \<newline>stmtC''
       = [''stmtA'', ''stmtB'', ''stmtC'']
   \<and> ((\<forall>l \<in> set (lines_of script). \<not> is_go_line l) \<longrightarrow>
        split_statements script = (if strip script = [] then [] else [strip script]))"
proof (intro conjI impI)
  show spec: "split_statements script = spec_split script"
    using split_from_segments [of "[]" "[]" script]
    by (simp add: split_statements_def re_split_def spec_split_def trim_all_def
          segments_mid_def at_bol_def)
  show "split_statements ''stmtA\<newline>GO\<newline>stmtB\<newline>  go  \<newline>stmtC''
          = [''stmtA'', ''stmtB'', ''stmtC'']"
    by code_simp
  assume "\<forall>l \<in> set (lines_of script). \<not> is_go_line l"
  then have "segments_from [] (lines_of script) = [script @ ''\<newline>'']"
    by (simp add: segments_from_no_separator concat_lines_of)
  with spec show "split_statements script = (if strip script = [] then [] else [strip script])"
    by (simp add: spec_split_def)
qed

theorem splitter_refines_spec_witness:
  "split_statements ''SELECT GOTO\<newline>x GO y'' = [''SELECT GOTO\<newline>x GO y'']"
proof -
  have h: "\<forall>l \<in> set (lines_of ''SELECT GOTO\<newline>x GO y'').  \<not> is_go_line l"
    by code_simp
  have s: "strip ''SELECT GOTO\<newline>x GO y'' = ''SELECT GOTO\<newline>x GO y''"
    by code_simp
  note t = splitter_refines_spec [of "''SELECT GOTO\<newline>x GO y''",
      THEN conjunct2, THEN conjunct2, THEN mp, OF h]
  show ?thesis
    by (simp only: t s) simp
qed

section \<open>Basic facts\<close>

lemmas st_defs = emit_def logging_def commit_def rollback_def close_def sys_exit_def start_def

lemma executed_append [simp]: "executed (xs @ ys) = executed xs @ executed ys"
  by (induction xs rule: executed.induct) simp_all

lemma merges_append [simp]: "merges (xs @ ys) = merges xs @ merges ys"
  by (induction xs rule: merges.induct) simp_all

lemma same_hash_iff:
  "(case m k of None \<Rightarrow> False | Some h \<Rightarrow> h = x) = (m k = Some x)"
  by (auto split: option.splits)

text \<open>
  C4. A script of three statements whose second statement fails: the first statement's
  effect is committed, the second's is rolled back, the third is never executed, one
  error is counted, no metadata upsert is issued, and the loop goes on with the next file.
\<close>

theorem statement_isolation:
  assumes "endswith filename ''.sql''"
    and "deployed_hashes (splitext_root filename) \<noteq> Some (sha256_hex w bytes)"
    and "decode_utf8_sig w bytes = Some content"
    and "split_statements content = [s1, s2, s3]"
    and "run_sql w s1 (working st) = Done d1"
    and "run_sql w s2 d1 = Raised d2"
  shows "\<exists>st'. process_file w deployed_hashes (filename, bytes) c st
                 = Inr (c\<lparr>error_count := error_count c + 1\<rparr>, st')
           \<and> committed st' = d1 \<and> working st' = d1
           \<and> executed (trace st') = executed (trace st) @ [s1, s2]
           \<and> merges (trace st') = merges (trace st)
           \<and> deploy_files w deployed_hashes ((filename, bytes) # files) c st
               = deploy_files w deployed_hashes files (c\<lparr>error_count := error_count c + 1\<rparr>) st'"
  using assms by (simp add: process_file_def same_hash_iff st_defs)

lemmas demo_defs = demo_world_def demo_env_def demo_sql_def fresh_def empty_table_def zero_counts_def

theorem statement_isolation_witness:
  "\<exists>st'. process_file (demo_world None) Map.empty
              (''p.sql'', ''S1\<newline>GO\<newline>FAIL\<newline>GO\<newline>S3'') zero_counts (start empty_table)
            = Inr (zero_counts\<lparr>error_count := error_count zero_counts + 1\<rparr>, st')
         \<and> committed st' = \<lparr>udata = [''S1''], meta = Some []\<rparr>
         \<and> working st' = \<lparr>udata = [''S1''], meta = Some []\<rparr>
         \<and> executed (trace st') = executed (trace (start empty_table)) @ [''S1'', ''FAIL'']
         \<and> merges (trace st') = merges (trace (start empty_table))
         \<and> deploy_files (demo_world None) Map.empty
              [(''p.sql'', ''S1\<newline>GO\<newline>FAIL\<newline>GO\<newline>S3'')] zero_counts (start empty_table)
            = deploy_files (demo_world None) Map.empty []
                (zero_counts\<lparr>error_count := error_count zero_counts + 1\<rparr>) st'"
proof (rule statement_isolation [where ?s3.0 = "''S3''"
         and ?d2.0 = "\<lparr>udata = [''S1'', ''partial''], meta = Some []\<rparr>"])
  show "endswith ''p.sql'' ''.sql''"
    by (simp add: endswith_def)
  show "Map.empty (splitext_root ''p.sql'')
          \<noteq> Some (sha256_hex (demo_world None) ''S1\<newline>GO\<newline>FAIL\<newline>GO\<newline>S3'')"
    by simp
  show "decode_utf8_sig (demo_world None) ''S1\<newline>GO\<newline>FAIL\<newline>GO\<newline>S3''
          = Some ''S1\<newline>GO\<newline>FAIL\<newline>GO\<newline>S3''"
    by (simp add: demo_defs)
  show "split_statements ''S1\<newline>GO\<newline>FAIL\<newline>GO\<newline>S3'' = [''S1'', ''FAIL'', ''S3'']"
    by code_simp
  show "run_sql (demo_world None) ''S1'' (working (start empty_table))
          = Done \<lparr>udata = [''S1''], meta = Some []\<rparr>"
    by (simp add: demo_defs st_defs)
  show "run_sql (demo_world None) ''FAIL'' \<lparr>udata = [''S1''], meta = Some []\<rparr>
          = Raised \<lparr>udata = [''S1'', ''partial''], meta = Some []\<rparr>"
    by (simp add: demo_defs)
qed

section \<open>The statement loop\<close>

lemma execute_statements_counts:
  "execute_statements w filename i stmts c st = (c2, st2) \<Longrightarrow>
     deployed_count c2 = deployed_count c \<and> skipped_count c2 = skipped_count c \<and>
     (error_count c2 = error_count c \<or> error_count c2 = error_count c + 1)"
proof (induction stmts arbitrary: i st)
  case Nil
  then show ?case by simp
next
  case (Cons stmt stmts)
  show ?case
  proof (cases "run_sql w stmt (working (emit (Execute stmt) st))")
    case (Done d)
    with Cons.prems show ?thesis
      by (auto dest: Cons.IH)
  next
    case (Raised d)
    with Cons.prems show ?thesis by auto
  qed
qed


lemma result_state_simps [simp]:
  "result_state (Inl (n, st)) = st" "result_state (Inr (a, st)) = st"
  by (simp_all add: result_state_def)


text \<open>
  C10. A new or changed script whose text splits into no statement, processed while the
  run has counted no error: nothing is executed, the upsert of its fingerprint is issued
  and, when it succeeds, the table holds the fingerprint under the script's name and the
  script is counted as deployed.
\<close>

theorem empty_script_deployed:
  assumes "endswith filename ''.sql''"
    and "deployed_hashes (splitext_root filename) \<noteq> Some (sha256_hex w bytes)"
    and "decode_utf8_sig w bytes = Some content"
    and "split_statements content = []"
    and "error_count c = 0"
    and "\<not> db_fault w (CallMerge (splitext_root filename))"
    and "meta (working st) = Some rows"
  shows "\<exists>st'. process_file w deployed_hashes (filename, bytes) c st
                 = Inr (c\<lparr>deployed_count := deployed_count c + 1\<rparr>, st')
           \<and> executed (trace st') = executed (trace st)
           \<and> merges (trace st') = merges (trace st) @ [(splitext_root filename, sha256_hex w bytes)]
           \<and> meta (committed st')
               = Some (AList.update (splitext_root filename) (sha256_hex w bytes) rows)
           \<and> map_of (AList.update (splitext_root filename) (sha256_hex w bytes) rows)
                 (splitext_root filename) = Some (sha256_hex w bytes)"
  using assms
  by (simp add: process_file_def same_hash_iff update_deployment_metadata_def merge_row_def
        st_defs update_conv' Let_def)

theorem empty_script_deployed_witness:
  "\<exists>st'. process_file (demo_world None) Map.empty (''p.sql'', ''GO\<newline>  \<newline>go\<newline>'')
             zero_counts (start empty_table)
           = Inr (zero_counts\<lparr>deployed_count := deployed_count zero_counts + 1\<rparr>, st')
       \<and> executed (trace st') = executed (trace (start empty_table))
       \<and> merges (trace st') = merges (trace (start empty_table)) @
            [(splitext_root ''p.sql'', sha256_hex (demo_world None) ''GO\<newline>  \<newline>go\<newline>'')]
       \<and> meta (committed st')
           = Some (AList.update (splitext_root ''p.sql'')
                     (sha256_hex (demo_world None) ''GO\<newline>  \<newline>go\<newline>'') [])
       \<and> map_of (AList.update (splitext_root ''p.sql'')
                    (sha256_hex (demo_world None) ''GO\<newline>  \<newline>go\<newline>'') [])
             (splitext_root ''p.sql'')
           = Some (sha256_hex (demo_world None) ''GO\<newline>  \<newline>go\<newline>'')"
proof (rule empty_script_deployed)
  show "endswith ''p.sql'' ''.sql''"
    by (simp add: endswith_def)
  show "Map.empty (splitext_root ''p.sql'')
          \<noteq> Some (sha256_hex (demo_world None) ''GO\<newline>  \<newline>go\<newline>'')"
    by simp
  show "decode_utf8_sig (demo_world None) ''GO\<newline>  \<newline>go\<newline>'' = Some ''GO\<newline>  \<newline>go\<newline>''"
    by (simp add: demo_defs)
  show "split_statements ''GO\<newline>  \<newline>go\<newline>'' = []"
    by code_simp
  show "error_count zero_counts = 0"
    by (simp add: demo_defs)
  show "\<not> db_fault (demo_world None) (CallMerge (splitext_root ''p.sql''))"
    by (simp add: demo_defs)
  show "meta (working (start empty_table)) = Some []"
    by (simp add: demo_defs st_defs)
qed

section \<open>Runs of the concrete world\<close>

lemmas run_defs = deploy_stored_procedures_def get_db_connection_def
  ensure_metadata_table_exists_def get_deployed_hashes_def update_deployment_metadata_def
  process_file_def fatal_def truthy_def fmt_def cnxn_str_def create_table_def merge_row_def
  endswith_def splitext_root_def Let_def

lemma split_statements_demo:
  "split_statements ''FAIL'' = [''FAIL'']" "split_statements ''B'' = [''B'']"
  "split_statements ''C'' = [''C'']" "split_statements ''D'' = [''D'']"
  "split_statements ''E'' = [''E'']"
  by code_simp+

lemma run_missing_dir:
  "deploy_stored_procedures (demo_world None) (start fresh) =
     \<lparr>exit_code = 1, summary = None,
      final = \<lparr>committed = \<lparr>udata = [], meta = Some []\<rparr>,
               working = \<lparr>udata = [], meta = Some []\<rparr>,
               trace =
                 [Log INFO ''Attempting to connect'',
                  Connect ''DRIVER={ODBC Driver 17 for SQL Server};SERVER=srv,1433;DATABASE=db;UID=sa;PWD=pw'',
                  Log INFO ''Successfully connected to the database.'',
                  CreateTable, Commit, Log INFO ''Ensured table exists.'',
                  SelectHashes,
                  Log ERROR ''Stored procedures directory not found.'']\<rparr>\<rparr>"
  by (simp add: run_defs st_defs demo_defs numeral_nat)

lemma run_empty_dir:
  "deploy_stored_procedures (demo_world (Some [])) (start fresh) =
     \<lparr>exit_code = 0,
      summary = Some \<lparr>deployed_count = 0, skipped_count = 0, error_count = 0\<rparr>,
      final = \<lparr>committed = \<lparr>udata = [], meta = Some []\<rparr>,
               working = \<lparr>udata = [], meta = Some []\<rparr>,
               trace =
                 [Log INFO ''Attempting to connect'',
                  Connect ''DRIVER={ODBC Driver 17 for SQL Server};SERVER=srv,1433;DATABASE=db;UID=sa;PWD=pw'',
                  Log INFO ''Successfully connected to the database.'',
                  CreateTable, Commit, Log INFO ''Ensured table exists.'',
                  SelectHashes, Close, Log INFO ''--- Deployment Summary ---'',
                  Log INFO ''Deployment completed successfully.'']\<rparr>\<rparr>"
  by (simp add: run_defs st_defs demo_defs numeral_nat)

lemma split_statements_S1: "split_statements ''S1'' = [''S1'']"
  by code_simp


text \<open>
  C1. Five scripts of one statement each, the first of which fails. The four others
  execute without error, yet the run reports no script deployed and the table stays
  empty: \<^verbatim>\<open>if error_count == 0\<close> tests the count of the whole run.
\<close>

theorem five_scripts_first_fails:
  "summary (deploy_stored_procedures (demo_world (Some five_scripts)) (start fresh))
     = Some \<lparr>deployed_count = 0, skipped_count = 0, error_count = 1\<rparr>
   \<and> exit_code (deploy_stored_procedures (demo_world (Some five_scripts)) (start fresh)) = 1
   \<and> executed (trace (final (deploy_stored_procedures (demo_world (Some five_scripts)) (start fresh))))
     = [''FAIL'', ''B'', ''C'', ''D'', ''E'']
   \<and> committed (final (deploy_stored_procedures (demo_world (Some five_scripts)) (start fresh)))
     = \<lparr>udata = [''B'', ''C'', ''D'', ''E''], meta = Some []\<rparr>"
  by (simp add: run_defs st_defs demo_defs five_scripts_def split_statements_demo numeral_nat)

text \<open>
  C7. The environment sets the server, the database, the user and the password, and
  leaves \<^verbatim>\<open>DB_PORT\<close> unset: \<^verbatim>\<open>all([server, database, username, password])\<close>
  does not look at the port, so the program goes on to \<^verbatim>\<open>pyodbc.connect\<close> with
  the port formatted as \<^verbatim>\<open>None\<close>, although its own error message lists
  \<^verbatim>\<open>DB_PORT\<close> among the variables that must be set.
\<close>

theorem connects_without_port:
  "environ no_port_world ''DB_PORT'' = None
   \<and> get_db_connection no_port_world (start fresh) =
       Inr ((), \<lparr>committed = fresh, working = fresh,
                 trace =
                   [Log INFO ''Attempting to connect'',
                    Connect ''DRIVER={ODBC Driver 17 for SQL Server};SERVER=srv,None;DATABASE=db;UID=sa;PWD=pw'',
                    Log INFO ''Successfully connected to the database.'']\<rparr>)"
  by (simp add: no_port_world_def run_defs st_defs demo_world_def demo_env_def numeral_nat)

section \<open>What the steps before the loop leave untouched\<close>

lemma connect_loop_quiet:
  "connect_loop w cs i n st = (b, st') \<Longrightarrow>
     committed st' = committed st \<and> working st' = working st \<and>
     executed (trace st') = executed (trace st) \<and> merges (trace st') = merges (trace st) \<and>
     (Close \<in> set (trace st') \<longleftrightarrow> Close \<in> set (trace st))"
proof (induction n arbitrary: i st)
  case 0
  then show ?case by simp
next
  case (Suc n)
  show ?case
  proof (cases "connect_ok w cs i")
    case True
    with Suc.prems show ?thesis by (auto simp: st_defs Let_def)
  next
    case False
    with Suc.prems have
      "connect_loop w cs (i + 1) n
         (emit (Sleep 5) (logging WARNING ''Database connection error'' (emit (Connect cs) st)))
       = (b, st')"
      by (simp add: Let_def)
    from Suc.IH [OF this] show ?thesis by (simp add: st_defs)
  qed
qed

lemma get_db_connection_quiet:
  "committed (result_state (get_db_connection w st)) = committed st \<and>
   working (result_state (get_db_connection w st)) = working st \<and>
   executed (trace (result_state (get_db_connection w st))) = executed (trace st) \<and>
   merges (trace (result_state (get_db_connection w st))) = merges (trace st) \<and>
   (Close \<in> set (trace (result_state (get_db_connection w st))) \<longleftrightarrow> Close \<in> set (trace st))"
proof -
  let ?cs = "cnxn_str (environ w ''DB_SERVER'') (environ w ''DB_DATABASE'')
               (environ w ''DB_USERNAME'') (environ w ''DB_PASSWORD'') (environ w ''DB_PORT'')"
  let ?st1 = "logging INFO ''Attempting to connect'' st"
  obtain b st2 where l: "connect_loop w ?cs 0 10 ?st1 = (b, st2)"
    by (cases "connect_loop w ?cs 0 10 ?st1")
  from connect_loop_quiet [OF l] l show ?thesis
    by (cases b) (auto simp: get_db_connection_def Let_def st_defs)
qed

lemma ensure_quiet:
  "executed (trace (result_state (ensure_metadata_table_exists w st))) = executed (trace st) \<and>
   merges (trace (result_state (ensure_metadata_table_exists w st))) = merges (trace st) \<and>
   (Close \<in> set (trace (result_state (ensure_metadata_table_exists w st)))
      \<longleftrightarrow> Close \<in> set (trace st))"
  by (simp add: ensure_metadata_table_exists_def Let_def st_defs)

lemma get_deployed_hashes_quiet:
  "committed (snd (get_deployed_hashes w st)) = committed st \<and>
   working (snd (get_deployed_hashes w st)) = working st \<and>
   executed (trace (snd (get_deployed_hashes w st))) = executed (trace st) \<and>
   merges (trace (snd (get_deployed_hashes w st))) = merges (trace st) \<and>
   (Close \<in> set (trace (snd (get_deployed_hashes w st))) \<longleftrightarrow> Close \<in> set (trace st))"
  by (simp add: get_deployed_hashes_def Let_def st_defs split: option.splits)

lemma get_db_connection_exit:
  "get_db_connection w st = Inl x \<Longrightarrow> fst x = 1"
  by (auto simp: get_db_connection_def Let_def sys_exit_def split: if_splits prod.splits bool.splits)

lemma ensure_exit:
  "ensure_metadata_table_exists w st = Inl x \<Longrightarrow>
     fst x = 1 \<and> committed (snd x) = committed st"
  by (auto simp: ensure_metadata_table_exists_def Let_def st_defs split: if_splits)

lemma ensure_ok:
  "ensure_metadata_table_exists w st = Inr (u, st') \<Longrightarrow>
     committed st' = create_table (working st) \<and> working st' = create_table (working st)"
  by (auto simp: ensure_metadata_table_exists_def Let_def st_defs split: if_splits)

text \<open>
  C6, as the code has it. When the scripts directory is missing the run ends with exit
  code 1 and no summary; no script statement is executed and no metadata record is
  upserted, and the committed database differs from the initial one at most by the
  metadata table, created empty by the step that precedes the directory check.
\<close>

theorem missing_directory_fatal:
  assumes "scripts_dir w = None"
  shows "exit_code (deploy_stored_procedures w (start d)) = 1
       \<and> summary (deploy_stored_procedures w (start d)) = None
       \<and> executed (trace (final (deploy_stored_procedures w (start d)))) = []
       \<and> merges (trace (final (deploy_stored_procedures w (start d)))) = []
       \<and> (committed (final (deploy_stored_procedures w (start d))) = d
          \<or> committed (final (deploy_stored_procedures w (start d))) = create_table d)"
proof (cases "get_db_connection w (start d)")
  case (Inl x)
  with get_db_connection_exit [OF Inl] get_db_connection_quiet [of w "start d"]
  show ?thesis
    by (cases x) (simp add: deploy_stored_procedures_def fatal_def start_def)
next
  case (Inr y)
  obtain u st1 where y: "y = (u, st1)" by (cases y)
  from get_db_connection_quiet [of w "start d"] Inr y
  have st1: "committed st1 = d" "working st1 = d" "executed (trace st1) = []"
    "merges (trace st1) = []"
    by (simp_all add: start_def)
  show ?thesis
  proof (cases "ensure_metadata_table_exists w st1")
    case (Inl x)
    with ensure_exit [OF Inl] ensure_quiet [of w st1] Inr y st1
    show ?thesis
      by (cases x) (simp add: deploy_stored_procedures_def fatal_def)
  next
    case (Inr z)
    obtain u' st2 where z: "z = (u', st2)" by (cases z)
    from ensure_ok [of w st1 u' st2] ensure_quiet [of w st1] Inr z st1
    have st2: "committed st2 = create_table d" "executed (trace st2) = []"
      "merges (trace st2) = []"
      by simp_all
    obtain dh st3 where g: "get_deployed_hashes w st2 = (dh, st3)"
      by (cases "get_deployed_hashes w st2")
    with get_deployed_hashes_quiet [of w st2] st2
    have st3: "committed st3 = create_table d" "executed (trace st3) = []"
      "merges (trace st3) = []"
      by simp_all
    from \<open>get_db_connection w (start d) = Inr y\<close> y Inr z g assms st3
    show ?thesis
      by (simp add: deploy_stored_procedures_def fatal_def st_defs)
  qed
qed

theorem missing_directory_fatal_witness:
  "exit_code (deploy_stored_procedures (demo_world None) (start fresh)) = 1
   \<and> summary (deploy_stored_procedures (demo_world None) (start fresh)) = None
   \<and> executed (trace (final (deploy_stored_procedures (demo_world None) (start fresh)))) = []
   \<and> merges (trace (final (deploy_stored_procedures (demo_world None) (start fresh)))) = []
   \<and> (committed (final (deploy_stored_procedures (demo_world None) (start fresh))) = fresh
      \<or> committed (final (deploy_stored_procedures (demo_world None) (start fresh)))
          = create_table fresh)"
proof (rule missing_directory_fatal)
  show "scripts_dir (demo_world None) = None"
    by (simp add: demo_world_def)
qed

text \<open>
  C6, as stated, fails twice: a run on an empty directory is not fatal, it ends with
  exit code 0; and a run on a missing directory has already created and committed the
  metadata table when it finds the directory missing.
\<close>

theorem empty_or_missing_directory_counterexample:
  "exit_code (deploy_stored_procedures (demo_world (Some [])) (start fresh)) = 0
   \<and> meta fresh = None
   \<and> meta (committed (final (deploy_stored_procedures (demo_world None) (start fresh)))) = Some []
   \<and> CreateTable \<in> set (trace (final (deploy_stored_procedures (demo_world None) (start fresh))))"
  by (simp add: run_missing_dir run_empty_dir) (simp add: fresh_def)

section \<open>Closing the connection\<close>

lemma execute_statements_close:
  "execute_statements w filename i stmts c st = (c2, st2) \<Longrightarrow>
     (Close \<in> set (trace st2) \<longleftrightarrow> Close \<in> set (trace st))"
proof (induction stmts arbitrary: i st)
  case Nil
  then show ?case by simp
next
  case (Cons stmt stmts)
  show ?case
  proof (cases "run_sql w stmt (working (emit (Execute stmt) st))")
    case (Done d)
    with Cons.prems have
      "execute_statements w filename (i + 1) stmts c
         (logging INFO (''Executed statement from '' @ filename)
            (commit (emit (Execute stmt) st\<lparr>working := d\<rparr>))) = (c2, st2)"
      by simp
    from Cons.IH [OF this] show ?thesis by (simp add: st_defs)
  next
    case (Raised d)
    with Cons.prems show ?thesis by (auto simp: st_defs)
  qed
qed

lemma update_deployment_metadata_close:
  "(Close \<in> set (trace (result_state (update_deployment_metadata w n h st))))
     \<longleftrightarrow> Close \<in> set (trace st)"
  by (simp add: update_deployment_metadata_def Let_def st_defs)

lemma process_file_close:
  "(Close \<in> set (trace (result_state (process_file w deployed_hashes file c st))))
     \<longleftrightarrow> Close \<in> set (trace st)"
proof -
  obtain filename bytes where f: "file = (filename, bytes)" by (cases "file")
  let ?st1 = "logging INFO (''Deploying '' @ filename @ '' (New or changed).'') st"
  show ?thesis
  proof (cases "decode_utf8_sig w bytes")
    case None
    then show ?thesis
      by (simp add: f process_file_def Let_def st_defs)
  next
    case (Some content)
    obtain c2 st2 where
      ex: "execute_statements w filename 1 (split_statements content) c ?st1 = (c2, st2)"
      by (cases "execute_statements w filename 1 (split_statements content) c ?st1")
    from execute_statements_close [OF ex]
    have cl: "(Close \<in> set (trace st2)) \<longleftrightarrow> Close \<in> set (trace st)"
      by (simp add: st_defs)
    from update_deployment_metadata_close
           [of w "splitext_root filename" "sha256_hex w bytes" st2] cl
    show ?thesis
      using Some ex
      by (auto simp: f process_file_def Let_def st_defs split: sum.splits)
  qed
qed

lemma deploy_files_close:
  "(Close \<in> set (trace (result_state (deploy_files w deployed_hashes files c st))))
     \<longleftrightarrow> Close \<in> set (trace st)"
proof (induction files arbitrary: c st)
  case Nil
  then show ?case by simp
next
  case (Cons f fs)
  show ?case
  proof (cases "process_file w deployed_hashes f c st")
    case (Inl x)
    with process_file_close [of w deployed_hashes f c st] show ?thesis
      by (cases x) simp
  next
    case (Inr y)
    obtain c' st' where y: "y = (c', st')" by (cases y)
    with Inr process_file_close [of w deployed_hashes f c st] Cons.IH [of c' st']
    show ?thesis by simp
  qed
qed

text \<open>
  C8, as the code has it. A run reaches \<^verbatim>\<open>cnxn.close()\<close> exactly when it reaches
  the summary: the runs that complete the loop, with or without per-script errors, close
  the connection before they exit, and the runs that abort with \<^verbatim>\<open>sys.exit(1)\<close>
  exit without closing it.
\<close>

theorem closed_iff_summary:
  assumes "Close \<notin> set (trace st)"
  shows "(Close \<in> set (trace (final (deploy_stored_procedures w st))))
           \<longleftrightarrow> summary (deploy_stored_procedures w st) \<noteq> None"
proof (cases "get_db_connection w st")
  case (Inl x)
  with get_db_connection_quiet [of w st] assms show ?thesis
    by (cases x) (simp add: deploy_stored_procedures_def fatal_def)
next
  case (Inr y)
  obtain u st1 where y: "y = (u, st1)" by (cases y)
  with get_db_connection_quiet [of w st] Inr assms
  have st1: "Close \<notin> set (trace st1)" by simp
  show ?thesis
  proof (cases "ensure_metadata_table_exists w st1")
    case (Inl x)
    with ensure_quiet [of w st1] st1 \<open>get_db_connection w st = Inr y\<close> y show ?thesis
      by (cases x) (simp add: deploy_stored_procedures_def fatal_def)
  next
    case (Inr z)
    obtain u' st2 where z: "z = (u', st2)" by (cases z)
    with ensure_quiet [of w st1] Inr st1
    have st2: "Close \<notin> set (trace st2)" by simp
    obtain dh st3 where g: "get_deployed_hashes w st2 = (dh, st3)"
      by (cases "get_deployed_hashes w st2")
    with get_deployed_hashes_quiet [of w st2] st2
    have st3: "Close \<notin> set (trace st3)" by simp
    note pre = \<open>get_db_connection w st = Inr y\<close> y Inr z g
    show ?thesis
    proof (cases "scripts_dir w")
      case None
      with pre st3 show ?thesis
        by (simp add: deploy_stored_procedures_def fatal_def st_defs)
    next
      case (Some files)
      show ?thesis
      proof (cases "deploy_files w dh files
                      \<lparr>deployed_count = 0, skipped_count = 0, error_count = 0\<rparr> st3")
        case (Inl x)
        with deploy_files_close [of w dh files
               "\<lparr>deployed_count = 0, skipped_count = 0, error_count = 0\<rparr>" st3] st3 pre Some
        show ?thesis
          by (cases x) (simp add: deploy_stored_procedures_def fatal_def)
      next
        case (Inr v)
        obtain c st4 where v: "v = (c, st4)" by (cases v)
        with Inr pre Some show ?thesis
          by (simp add: deploy_stored_procedures_def Let_def st_defs)
      qed
    qed
  qed
qed

theorem closed_iff_summary_witness:
  "(Close \<in> set (trace (final (deploy_stored_procedures (demo_world (Some [])) (start fresh)))))
     \<longleftrightarrow> summary (deploy_stored_procedures (demo_world (Some [])) (start fresh)) \<noteq> None"
proof (rule closed_iff_summary)
  show "Close \<notin> set (trace (start fresh))"
    by (simp add: start_def)
qed

text \<open>
  C8, as stated, fails on a fatal abort: the run on a missing directory has connected
  and exits with code 1 without a call of \<^verbatim>\<open>close\<close>.
\<close>

theorem fatal_abort_not_closed_counterexample:
  "exit_code (deploy_stored_procedures (demo_world None) (start fresh)) = 1
   \<and> Log INFO ''Successfully connected to the database.''
       \<in> set (trace (final (deploy_stored_procedures (demo_world None) (start fresh))))
   \<and> Close \<notin> set (trace (final (deploy_stored_procedures (demo_world None) (start fresh))))"
  by (simp add: run_missing_dir)

section \<open>Failures of the metadata store\<close>

lemma deploy_files_append:
  "deploy_files w deployed_hashes (pre @ post) c st =
     (case deploy_files w deployed_hashes pre c st of
        Inl x \<Rightarrow> Inl x
      | Inr (c', st') \<Rightarrow> deploy_files w deployed_hashes post c' st')"
  by (induction pre arbitrary: c st) (auto split: sum.splits)

lemma process_file_not_skipped:
  "deployed_hashes (splitext_root filename) \<noteq> Some (sha256_hex w bytes) \<Longrightarrow>
   process_file w deployed_hashes (filename, bytes) c st = Inr (c', st') \<Longrightarrow>
   skipped_count c' = skipped_count c"
  by (auto simp: process_file_def Let_def same_hash_iff
           split: if_splits option.splits prod.splits sum.splits
           dest!: execute_statements_counts)

lemma deploy_files_empty_no_skip:
  "deploy_files w Map.empty files c st = Inr (c', st') \<Longrightarrow> skipped_count c' = skipped_count c"
proof (induction files arbitrary: c st)
  case Nil
  then show ?case by simp
next
  case (Cons f fs)
  obtain filename bytes where f: "f = (filename, bytes)" by (cases "f")
  from Cons.prems obtain c1 st1 where
    p: "process_file w Map.empty f c st = Inr (c1, st1)"
    and r: "deploy_files w Map.empty fs c1 st1 = Inr (c', st')"
    by (auto split: sum.splits)
  from p f have "skipped_count c1 = skipped_count c"
    using process_file_not_skipped [of Map.empty filename w bytes c st c1 st1] by simp
  with Cons.IH [OF r] show ?case by simp
qed

text \<open>
  C9. A read of the metadata that fails (a database error, or the table missing) gives
  the empty mapping and one warning, and cannot exit. A run whose read fails therefore
  goes on: its outcome is that of the loop over the files of the directory with the empty
  mapping, in which no script is skipped. An upsert that fails after the statements of a
  script have all executed ends the run at once with exit code 1 and no summary; the
  files after it are not processed.
\<close>

theorem metadata_read_tolerated_write_fatal:
  "(db_fault w CallSelect \<or> meta (working s) = None \<longrightarrow>
      get_deployed_hashes w s =
        (Map.empty,
         s\<lparr>trace := trace s @
              [SelectHashes,
               Log WARNING ''Error fetching deployed hashes (may be first run)'']\<rparr>))
   \<and> (get_db_connection w r0 = Inr (v1, r1)
        \<and> ensure_metadata_table_exists w r1 = Inr (v2, r2)
        \<and> (db_fault w CallSelect \<or> meta (working r2) = None)
        \<and> scripts_dir w = Some files \<longrightarrow>
      (\<forall>x. deploy_files w Map.empty files
               \<lparr>deployed_count = 0, skipped_count = 0, error_count = 0\<rparr>
               (r2\<lparr>trace := trace r2 @
                     [SelectHashes,
                      Log WARNING ''Error fetching deployed hashes (may be first run)'']\<rparr>) = Inl x
            \<longrightarrow> deploy_stored_procedures w r0 = fatal x)
      \<and> (\<forall>c' r4. deploy_files w Map.empty files
               \<lparr>deployed_count = 0, skipped_count = 0, error_count = 0\<rparr>
               (r2\<lparr>trace := trace r2 @
                     [SelectHashes,
                      Log WARNING ''Error fetching deployed hashes (may be first run)'']\<rparr>)
               = Inr (c', r4)
            \<longrightarrow> summary (deploy_stored_procedures w r0) = Some c'
                \<and> exit_code (deploy_stored_procedures w r0) = (if error_count c' > 0 then 1 else 0)
                \<and> skipped_count c' = 0))
   \<and> (get_db_connection w st0 = Inr (u1, st1)
        \<and> ensure_metadata_table_exists w st1 = Inr (u2, st2)
        \<and> get_deployed_hashes w st2 = (deployed_hashes, st3)
        \<and> scripts_dir w = Some (pre @ (filename, bytes) # post)
        \<and> deploy_files w deployed_hashes pre
             \<lparr>deployed_count = 0, skipped_count = 0, error_count = 0\<rparr> st3 = Inr (c, st)
        \<and> endswith filename ''.sql''
        \<and> deployed_hashes (splitext_root filename) \<noteq> Some (sha256_hex w bytes)
        \<and> decode_utf8_sig w bytes = Some content
        \<and> execute_statements w filename 1 (split_statements content) c
             (logging INFO (''Deploying '' @ filename @ '' (New or changed).'') st) = (c2, st')
        \<and> error_count c2 = 0
        \<and> (db_fault w (CallMerge (splitext_root filename)) \<or> meta (working st') = None) \<longrightarrow>
      deploy_stored_procedures w st0 =
        \<lparr>exit_code = 1, summary = None,
         final = st'\<lparr>trace := trace st' @
                   [Merge (splitext_root filename) (sha256_hex w bytes),
                    Log ERROR (''Error updating metadata for '' @ splitext_root filename)]\<rparr>\<rparr>)"
proof (intro conjI impI)
  assume "db_fault w CallSelect \<or> meta (working s) = None"
  then show "get_deployed_hashes w s =
        (Map.empty,
         s\<lparr>trace := trace s @
              [SelectHashes,
               Log WARNING ''Error fetching deployed hashes (may be first run)'']\<rparr>)"
    by (auto simp: get_deployed_hashes_def Let_def st_defs)
next
  let ?r3 = "r2\<lparr>trace := trace r2 @
                     [SelectHashes,
                      Log WARNING ''Error fetching deployed hashes (may be first run)'']\<rparr>"
  let ?zero = "\<lparr>deployed_count = 0, skipped_count = 0, error_count = 0\<rparr>"
  assume a: "get_db_connection w r0 = Inr (v1, r1)
        \<and> ensure_metadata_table_exists w r1 = Inr (v2, r2)
        \<and> (db_fault w CallSelect \<or> meta (working r2) = None)
        \<and> scripts_dir w = Some files"
  then have g: "get_deployed_hashes w r2 = (Map.empty, ?r3)"
    by (auto simp: get_deployed_hashes_def Let_def st_defs)
  show "\<forall>x. deploy_files w Map.empty files ?zero ?r3 = Inl x
            \<longrightarrow> deploy_stored_procedures w r0 = fatal x"
    using a g by (simp add: deploy_stored_procedures_def)
  show "\<forall>c' r4. deploy_files w Map.empty files ?zero ?r3 = Inr (c', r4)
            \<longrightarrow> summary (deploy_stored_procedures w r0) = Some c'
                \<and> exit_code (deploy_stored_procedures w r0) = (if error_count c' > 0 then 1 else 0)
                \<and> skipped_count c' = 0"
  proof (intro allI impI)
    fix c' r4
    assume l: "deploy_files w Map.empty files ?zero ?r3 = Inr (c', r4)"
    from deploy_files_empty_no_skip [OF l] have "skipped_count c' = 0" by simp
    with a g l show "summary (deploy_stored_procedures w r0) = Some c'
                \<and> exit_code (deploy_stored_procedures w r0) = (if error_count c' > 0 then 1 else 0)
                \<and> skipped_count c' = 0"
      by (simp add: deploy_stored_procedures_def Let_def)
  qed
next
  let ?x = "(1::nat, st'\<lparr>trace := trace st' @
                      [Merge (splitext_root filename) (sha256_hex w bytes),
                       Log ERROR (''Error updating metadata for '' @ splitext_root filename)]\<rparr>)"
  assume a: "get_db_connection w st0 = Inr (u1, st1)
        \<and> ensure_metadata_table_exists w st1 = Inr (u2, st2)
        \<and> get_deployed_hashes w st2 = (deployed_hashes, st3)
        \<and> scripts_dir w = Some (pre @ (filename, bytes) # post)
        \<and> deploy_files w deployed_hashes pre
             \<lparr>deployed_count = 0, skipped_count = 0, error_count = 0\<rparr> st3 = Inr (c, st)
        \<and> endswith filename ''.sql''
        \<and> deployed_hashes (splitext_root filename) \<noteq> Some (sha256_hex w bytes)
        \<and> decode_utf8_sig w bytes = Some content
        \<and> execute_statements w filename 1 (split_statements content) c
             (logging INFO (''Deploying '' @ filename @ '' (New or changed).'') st) = (c2, st')
        \<and> error_count c2 = 0
        \<and> (db_fault w (CallMerge (splitext_root filename)) \<or> meta (working st') = None)"
  then have
    "update_deployment_metadata w (splitext_root filename) (sha256_hex w bytes) st' = Inl ?x"
    by (auto simp: update_deployment_metadata_def Let_def st_defs)
  with a have "process_file w deployed_hashes (filename, bytes) c st = Inl ?x"
    by (simp add: process_file_def same_hash_iff Let_def)
  with a have
    "deploy_files w deployed_hashes (pre @ (filename, bytes) # post)
       \<lparr>deployed_count = 0, skipped_count = 0, error_count = 0\<rparr> st3 = Inl ?x"
    by (simp add: deploy_files_append)
  with a show "deploy_stored_procedures w st0 =
        \<lparr>exit_code = 1, summary = None,
         final = st'\<lparr>trace := trace st' @
                   [Merge (splitext_root filename) (sha256_hex w bytes),
                    Log ERROR (''Error updating metadata for '' @ splitext_root filename)]\<rparr>\<rparr>"
    by (simp add: deploy_stored_procedures_def fatal_def)
qed

lemma split_statements_A: "split_statements ''A'' = [''A'']"
  by code_simp

theorem metadata_read_tolerated_write_fatal_witness:
  "fst (get_deployed_hashes read_fail_world (start recorded_p)) = Map.empty
   \<and> summary (deploy_stored_procedures read_fail_world (start recorded_p))
       = Some \<lparr>deployed_count = 1, skipped_count = 0, error_count = 0\<rparr>
   \<and> exit_code (deploy_stored_procedures read_fail_world (start recorded_p)) = 0
   \<and> exit_code (deploy_stored_procedures faulty_world (start fresh)) = 1
   \<and> summary (deploy_stored_procedures faulty_world (start fresh)) = None
   \<and> executed (trace (final (deploy_stored_procedures faulty_world (start fresh)))) = [''A'', ''B'']"
proof -
  let ?t1 = "[Log INFO ''Attempting to connect'',
              Connect ''DRIVER={ODBC Driver 17 for SQL Server};SERVER=srv,1433;DATABASE=db;UID=sa;PWD=pw'',
              Log INFO ''Successfully connected to the database.'']"
  let ?t2 = "?t1 @ [CreateTable, Commit, Log INFO ''Ensured table exists.'']"
  let ?zero = "\<lparr>deployed_count = 0, skipped_count = 0, error_count = 0\<rparr>"
  let ?c1 = "\<lparr>deployed_count = 1, skipped_count = 0, error_count = 0\<rparr>"
  text \<open>the world in which only the read fails\<close>
  let ?v = read_fail_world
  let ?p = "\<lparr>udata = [], meta = Some [(''p'', ''S1'')]\<rparr> :: string list db"
  let ?p1 = "\<lparr>udata = [''S1''], meta = Some [(''p'', ''S1'')]\<rparr> :: string list db"
  let ?r3 = "\<lparr>committed = ?p, working = ?p, trace = ?t2\<rparr>
               \<lparr>trace := trace \<lparr>committed = ?p, working = ?p, trace = ?t2\<rparr> @
                  [SelectHashes, Log WARNING ''Error fetching deployed hashes (may be first run)'']\<rparr>"
  let ?r4 = "\<lparr>committed = ?p1, working = ?p1,
              trace = ?t2 @
                [SelectHashes, Log WARNING ''Error fetching deployed hashes (may be first run)'',
                 Log INFO ''Deploying p.sql (New or changed).'',
                 Execute ''S1'', Commit, Log INFO ''Executed statement from p.sql'',
                 Merge ''p'' ''S1'', Commit, Log INFO ''Metadata updated for p'',
                 Log INFO ''Successfully deployed: p.sql'']\<rparr>"
  note vdefs = read_fail_world_def recorded_p_def demo_defs st_defs run_defs
  have f: "db_fault ?v CallSelect \<or> meta (working (start recorded_p)) = None"
    by (simp add: vdefs)
  have k1: "get_db_connection ?v (start recorded_p)
              = Inr ((), \<lparr>committed = ?p, working = ?p, trace = ?t1\<rparr>)"
    by (simp add: vdefs numeral_nat)
  have k2: "ensure_metadata_table_exists ?v \<lparr>committed = ?p, working = ?p, trace = ?t1\<rparr>
              = Inr ((), \<lparr>committed = ?p, working = ?p, trace = ?t2\<rparr>)"
    by (simp add: vdefs)
  have k3: "db_fault ?v CallSelect
              \<or> meta (working \<lparr>committed = ?p, working = ?p, trace = ?t2\<rparr>) = None"
    by (simp add: vdefs)
  have k4: "scripts_dir ?v = Some [(''p.sql'', ''S1'')]"
    by (simp add: vdefs)
  have k5: "deploy_files ?v Map.empty [(''p.sql'', ''S1'')] ?zero ?r3 = Inr (?c1, ?r4)"
    by (simp add: vdefs split_statements_S1)
  note read = metadata_read_tolerated_write_fatal
      [where w = ?v and s = "start recorded_p", THEN conjunct1, THEN mp, OF f]
  note goes_on = metadata_read_tolerated_write_fatal
      [where w = ?v and ?r0.0 = "start recorded_p" and files = "[(''p.sql'', ''S1'')]",
       THEN conjunct2, THEN conjunct1, THEN mp, OF conjI [OF k1 conjI [OF k2 conjI [OF k3 k4]]],
       THEN conjunct2, THEN spec, THEN spec, THEN mp, OF k5]
  text \<open>the world in which the upsert for \<^verbatim>\<open>b\<close> fails\<close>
  let ?w = faulty_world
  let ?t3 = "?t2 @ [SelectHashes]"
  let ?t4 = "?t3 @ [Log INFO ''Deploying a.sql (New or changed).'', Execute ''A'', Commit,
                    Log INFO ''Executed statement from a.sql'', Merge ''a'' ''A'', Commit,
                    Log INFO ''Metadata updated for a'', Log INFO ''Successfully deployed: a.sql'']"
  let ?t5 = "?t4 @ [Log INFO ''Deploying b.sql (New or changed).'', Execute ''B'', Commit,
                    Log INFO ''Executed statement from b.sql'']"
  let ?e = "\<lparr>udata = [], meta = Some []\<rparr> :: string list db"
  let ?a = "\<lparr>udata = [''A''], meta = Some [(''a'', ''A'')]\<rparr> :: string list db"
  let ?b = "\<lparr>udata = [''A'', ''B''], meta = Some [(''a'', ''A'')]\<rparr> :: string list db"
  note defs = faulty_world_def demo_defs st_defs run_defs
  have h2: "get_db_connection ?w (start fresh)
              = Inr ((), \<lparr>committed = fresh, working = fresh, trace = ?t1\<rparr>)"
    by (simp add: defs numeral_nat)
  have h3: "ensure_metadata_table_exists ?w \<lparr>committed = fresh, working = fresh, trace = ?t1\<rparr>
              = Inr ((), \<lparr>committed = ?e, working = ?e, trace = ?t2\<rparr>)"
    by (simp add: defs)
  have h4: "get_deployed_hashes ?w \<lparr>committed = ?e, working = ?e, trace = ?t2\<rparr>
              = (Map.empty, \<lparr>committed = ?e, working = ?e, trace = ?t3\<rparr>)"
    by (simp add: defs)
  have h5: "scripts_dir ?w = Some ([(''a.sql'', ''A'')] @ (''b.sql'', ''B'') # [(''c.sql'', ''C'')])"
    by (simp add: defs)
  have h6: "deploy_files ?w Map.empty [(''a.sql'', ''A'')] ?zero
              \<lparr>committed = ?e, working = ?e, trace = ?t3\<rparr>
            = Inr (?c1, \<lparr>committed = ?a, working = ?a, trace = ?t4\<rparr>)"
    by (simp add: defs split_statements_A)
  have h7: "endswith ''b.sql'' ''.sql''"
    by (simp add: endswith_def)
  have h8: "Map.empty (splitext_root ''b.sql'') \<noteq> Some (sha256_hex ?w ''B'')"
    by simp
  have h9: "decode_utf8_sig ?w ''B'' = Some ''B''"
    by (simp add: defs)
  have h10: "execute_statements ?w ''b.sql'' 1 (split_statements ''B'') ?c1
               (logging INFO (''Deploying '' @ ''b.sql'' @ '' (New or changed).'')
                  \<lparr>committed = ?a, working = ?a, trace = ?t4\<rparr>)
             = (?c1, \<lparr>committed = ?b, working = ?b, trace = ?t5\<rparr>)"
    by (simp add: defs split_statements_demo)
  have h11: "error_count ?c1 = 0"
    by simp
  have h12: "db_fault ?w (CallMerge (splitext_root ''b.sql''))
             \<or> meta (working \<lparr>committed = ?b, working = ?b, trace = ?t5\<rparr>) = None"
    by (simp add: defs)
  note abort = metadata_read_tolerated_write_fatal
      [THEN conjunct2, THEN conjunct2, THEN mp,
       OF conjI [OF h2 conjI [OF h3 conjI [OF h4 conjI [OF h5 conjI [OF h6 conjI [OF h7
          conjI [OF h8 conjI [OF h9 conjI [OF h10 conjI [OF h11 h12]]]]]]]]]]]
  from read goes_on abort show ?thesis
    by simp
qed

section \<open>Two runs in succession\<close>

lemma fold_upd_lookup:
  "distinct (map fst rows) \<Longrightarrow>
     fold (\<lambda>(n, h) m. m(n \<mapsto> h)) rows m0 k =
       (case map_of rows k of None \<Rightarrow> m0 k | Some v \<Rightarrow> Some v)"
proof (induction rows arbitrary: m0)
  case Nil
  then show ?case by simp
next
  case (Cons r rows)
  obtain n h where r: "r = (n, h)" by (cases r)
  from Cons.prems r have nin: "n \<notin> fst ` set rows" and d: "distinct (map fst rows)"
    by auto
  from nin have none: "map_of rows n = None"
    by (simp add: map_of_eq_None_iff)
  have "fold (\<lambda>(n, h) m. m(n \<mapsto> h)) (r # rows) m0 k
          = fold (\<lambda>(n, h) m. m(n \<mapsto> h)) rows (m0(n \<mapsto> h)) k"
    by (simp add: r)
  also have "\<dots> = (case map_of rows k of None \<Rightarrow> (m0(n \<mapsto> h)) k | Some v \<Rightarrow> Some v)"
    by (rule Cons.IH [OF d])
  also have "\<dots> = (case map_of (r # rows) k of None \<Rightarrow> m0 k | Some v \<Rightarrow> Some v)"
    using none by (auto simp: r split: option.splits)
  finally show ?case .
qed

lemma fold_upd_map_of:
  "distinct (map fst rows) \<Longrightarrow> fold (\<lambda>(n, h) m. m(n \<mapsto> h)) rows Map.empty = map_of rows"
  by (rule ext) (simp add: fold_upd_lookup split: option.splits)

lemma connect_loop_independent:
  "fst (connect_loop w cs i n st) = fst (connect_loop w cs i n st')"
  by (induction n arbitrary: i st st') (auto simp: Let_def)

lemma get_db_connection_independent:
  "get_db_connection w st = Inr (u, st1) \<Longrightarrow> \<exists>st1'. get_db_connection w st' = Inr (u, st1')"
proof -
  assume a: "get_db_connection w st = Inr (u, st1)"
  let ?cs = "cnxn_str (environ w ''DB_SERVER'') (environ w ''DB_DATABASE'')
               (environ w ''DB_USERNAME'') (environ w ''DB_PASSWORD'') (environ w ''DB_PORT'')"
  obtain b st2 where l: "connect_loop w ?cs 0 10 (logging INFO ''Attempting to connect'' st) = (b, st2)"
    by (cases "connect_loop w ?cs 0 10 (logging INFO ''Attempting to connect'' st)")
  obtain b' st2' where l': "connect_loop w ?cs 0 10 (logging INFO ''Attempting to connect'' st') = (b', st2')"
    by (cases "connect_loop w ?cs 0 10 (logging INFO ''Attempting to connect'' st')")
  from connect_loop_independent [of w ?cs 0 10 "logging INFO ''Attempting to connect'' st"
         "logging INFO ''Attempting to connect'' st'"] l l'
  have "b' = b" by simp
  with a l l' show ?thesis
    by (cases b) (auto simp: get_db_connection_def Let_def sys_exit_def split: if_splits)
qed

lemma update_deployment_metadata_exit:
  "update_deployment_metadata w n h st = Inl x \<Longrightarrow> fst x = 1"
  by (auto simp: update_deployment_metadata_def Let_def sys_exit_def split: if_splits)

lemma process_file_exit:
  "process_file w deployed_hashes f c st = Inl x \<Longrightarrow> fst x = 1"
  by (auto simp: process_file_def Let_def split: if_splits option.splits prod.splits sum.splits
           dest: update_deployment_metadata_exit)

lemma deploy_files_exit:
  "deploy_files w deployed_hashes files c st = Inl x \<Longrightarrow> fst x = 1"
proof (induction files arbitrary: c st)
  case Nil
  then show ?case by simp
next
  case (Cons f fs)
  then show ?case
    by (auto split: sum.splits dest: process_file_exit)
qed

lemma process_file_error_mono:
  "process_file w deployed_hashes f c st = Inr (c', st') \<Longrightarrow> error_count c \<le> error_count c'"
  by (auto simp: process_file_def Let_def
           split: if_splits option.splits prod.splits sum.splits
           dest!: execute_statements_counts)

lemma deploy_files_error_mono:
  "deploy_files w deployed_hashes files c st = Inr (c', st') \<Longrightarrow> error_count c \<le> error_count c'"
proof (induction files arbitrary: c st)
  case Nil
  then show ?case by simp
next
  case (Cons f fs)
  show ?case
  proof (cases "process_file w deployed_hashes f c st")
    case (Inl x)
    with Cons.prems show ?thesis by simp
  next
    case (Inr y)
    obtain c1 st1 where y: "y = (c1, st1)" by (cases y)
    with Inr Cons.prems have "deploy_files w deployed_hashes fs c1 st1 = Inr (c', st')"
      by simp
    from Cons.IH [OF this] process_file_error_mono [of w deployed_hashes f c st c1 st1] Inr y
    show ?thesis by simp
  qed
qed

lemma deploy_files_all_skipped:
  "\<forall>f \<in> set (sql_files files). deployed_hashes (script_name f) = Some (sha256_hex w (snd f)) \<Longrightarrow>
     \<exists>st'. deploy_files w deployed_hashes files c st
            = Inr (c\<lparr>skipped_count := skipped_count c + length (sql_files files)\<rparr>, st')"
proof (induction files arbitrary: c st)
  case Nil
  then show ?case by (simp add: sql_files_def)
next
  case (Cons f fs)
  obtain filename bytes where f: "f = (filename, bytes)" by (cases f)
  show ?case
  proof (cases "endswith filename ''.sql''")
    case False
    with f have p: "process_file w deployed_hashes f c st = Inr (c, st)"
      by (simp add: process_file_def)
    from False f Cons.prems
    have "\<forall>g \<in> set (sql_files fs). deployed_hashes (script_name g) = Some (sha256_hex w (snd g))"
      by (simp add: sql_files_def)
    from Cons.IH [OF this, of c st] p False f show ?thesis
      by (simp add: sql_files_def)
  next
    case True
    with f Cons.prems have "deployed_hashes (splitext_root filename) = Some (sha256_hex w bytes)"
      by (simp add: sql_files_def script_name_def)
    with True f have p: "process_file w deployed_hashes f c st
        = Inr (c\<lparr>skipped_count := skipped_count c + 1\<rparr>,
               logging INFO (''Skipping '' @ filename @ '': No changes detected.'') st)"
      by (simp add: process_file_def same_hash_iff)
    from Cons.prems
    have "\<forall>g \<in> set (sql_files fs). deployed_hashes (script_name g) = Some (sha256_hex w (snd g))"
      by (simp add: sql_files_def)
    from Cons.IH [OF this, of "c\<lparr>skipped_count := skipped_count c + 1\<rparr>"
        "logging INFO (''Skipping '' @ filename @ '': No changes detected.'') st"] p True f
    show ?thesis
      by (auto simp: sql_files_def)
  qed
qed

lemma execute_statements_meta:
  assumes "preserves_metadata w"
  shows "execute_statements w filename i stmts c st = (c2, st2) \<Longrightarrow>
         meta (committed st) = meta (working st) \<Longrightarrow>
         meta (working st2) = meta (working st) \<and> meta (committed st2) = meta (working st)"
proof (induction stmts arbitrary: i st)
  case Nil
  then show ?case by simp
next
  case (Cons stmt stmts)
  show ?case
  proof (cases "run_sql w stmt (working (emit (Execute stmt) st))")
    case (Done d)
    let ?st = "logging INFO (''Executed statement from '' @ filename)
                 (commit (emit (Execute stmt) st\<lparr>working := d\<rparr>))"
    from assms Done have m: "meta d = meta (working st)"
      by (auto simp: preserves_metadata_def st_defs)
    from Cons.prems Done
    have "execute_statements w filename (i + 1) stmts c ?st = (c2, st2)"
      by simp
    from Cons.IH [OF this] m show ?thesis
      by (simp add: st_defs)
  next
    case (Raised d)
    with Cons.prems show ?thesis
      by (auto simp: st_defs)
  qed
qed

lemma process_file_records:
  assumes "preserves_metadata w"
    and "process_file w deployed_hashes f c st = Inr (c', st')"
    and "error_count c' = 0"
    and "meta (working st) = Some rows" and "meta (committed st) = Some rows"
    and "endswith (fst f) ''.sql'' \<longrightarrow> deployed_hashes (script_name f) = map_of rows (script_name f)"
  shows "\<exists>rows'. meta (working st') = Some rows' \<and> meta (committed st') = Some rows' \<and>
           (distinct (map fst rows) \<longrightarrow> distinct (map fst rows')) \<and>
           map_of rows' = (if endswith (fst f) ''.sql''
                           then (map_of rows)(script_name f \<mapsto> sha256_hex w (snd f))
                           else map_of rows)"
proof -
  obtain filename bytes where f: "f = (filename, bytes)" by (cases "f")
  let ?n = "splitext_root filename" and ?h = "sha256_hex w bytes"
  show ?thesis
  proof (cases "endswith filename ''.sql''")
    case False
    with assms(2,4,5) f show ?thesis
      by (auto simp: process_file_def)
  next
    case sql: True
    show ?thesis
    proof (cases "deployed_hashes ?n = Some ?h")
      case True
      with sql f assms(2) have "st' = logging INFO (''Skipping '' @ filename @ '': No changes detected.'') st"
        by (simp add: process_file_def same_hash_iff)
      moreover from True sql f assms(6) have "map_of rows ?n = Some ?h"
        by (simp add: script_name_def)
      then have "(map_of rows)(?n \<mapsto> ?h) = map_of rows"
        by (simp add: fun_upd_idem_iff)
      ultimately show ?thesis
        using assms(4,5) sql f by (simp add: st_defs script_name_def)
    next
      case False
      let ?st1 = "logging INFO (''Deploying '' @ filename @ '' (New or changed).'') st"
      show ?thesis
      proof (cases "decode_utf8_sig w bytes")
        case None
        with sql False f assms(2,3) show ?thesis
          by (auto simp: process_file_def same_hash_iff Let_def)
      next
        case (Some content)
        obtain c2 st2 where
          ex: "execute_statements w filename 1 (split_statements content) c ?st1 = (c2, st2)"
          by (cases "execute_statements w filename 1 (split_statements content) c ?st1")
        have "meta (committed ?st1) = meta (working ?st1)"
          using assms(4,5) by (simp add: st_defs)
        from execute_statements_meta [OF assms(1) ex this] assms(4)
        have m2: "meta (working st2) = Some rows" "meta (committed st2) = Some rows"
          by (simp_all add: st_defs)
        show ?thesis
        proof (cases "error_count c2 = 0")
          case nz: False
          with sql False f Some ex assms(2,3) show ?thesis
            by (auto simp: process_file_def same_hash_iff Let_def)
        next
          case True
          with sql False f Some ex assms(2)
          have "(case update_deployment_metadata w ?n ?h st2 of
                   Inl x \<Rightarrow> Inl x
                 | Inr (u, st3) \<Rightarrow>
                     Inr (c2\<lparr>deployed_count := deployed_count c2 + 1\<rparr>,
                          logging INFO (''Successfully deployed: '' @ filename) st3))
                = Inr (c', st')"
            by (simp add: process_file_def same_hash_iff Let_def)
          then obtain u st3 where
            up: "update_deployment_metadata w ?n ?h st2 = Inr (u, st3)"
            and st': "st' = logging INFO (''Successfully deployed: '' @ filename) st3"
            by (auto split: sum.splits)
          from up m2 have
            "meta (working st3) = Some (AList.update ?n ?h rows)"
            "meta (committed st3) = Some (AList.update ?n ?h rows)"
            by (auto simp: update_deployment_metadata_def Let_def st_defs merge_row_def
                     split: if_splits)
          with st' sql f show ?thesis
            by (simp add: st_defs script_name_def update_conv' distinct_update)
        qed
      qed
    qed
  qed
qed

lemma deploy_files_records:
  assumes "preserves_metadata w"
  shows "deploy_files w deployed_hashes files c st = Inr (c', st') \<Longrightarrow>
         error_count c' = 0 \<Longrightarrow>
         meta (working st) = Some rows \<Longrightarrow> meta (committed st) = Some rows \<Longrightarrow>
         distinct (map fst rows) \<Longrightarrow>
         distinct (map script_name (sql_files files)) \<Longrightarrow>
         \<forall>f \<in> set (sql_files files). deployed_hashes (script_name f) = map_of rows (script_name f) \<Longrightarrow>
         \<exists>rows'. meta (working st') = Some rows' \<and> meta (committed st') = Some rows' \<and>
           distinct (map fst rows') \<and>
           (\<forall>f \<in> set (sql_files files). map_of rows' (script_name f) = Some (sha256_hex w (snd f))) \<and>
           (\<forall>n. n \<notin> script_name ` set (sql_files files) \<longrightarrow> map_of rows' n = map_of rows n)"
proof (induction files arbitrary: c st rows)
  case Nil
  then show ?case by (simp add: sql_files_def)
next
  case (Cons f fs)
  from Cons.prems(1) obtain c1 st1 where
    p: "process_file w deployed_hashes f c st = Inr (c1, st1)"
    and r: "deploy_files w deployed_hashes fs c1 st1 = Inr (c', st')"
    by (auto split: sum.splits)
  from deploy_files_error_mono [OF r] Cons.prems(2) have e1: "error_count c1 = 0"
    by simp
  have agree: "endswith (fst f) ''.sql'' \<longrightarrow>
                 deployed_hashes (script_name f) = map_of rows (script_name f)"
    using Cons.prems(7) by (simp add: sql_files_def)
  from process_file_records [OF assms p e1 Cons.prems(3,4) agree] Cons.prems(5)
  obtain rows1 where
    r1: "meta (working st1) = Some rows1" "meta (committed st1) = Some rows1"
        "distinct (map fst rows1)"
        "map_of rows1 = (if endswith (fst f) ''.sql''
                         then (map_of rows)(script_name f \<mapsto> sha256_hex w (snd f))
                         else map_of rows)"
    by blast
  have dfs: "distinct (map script_name (sql_files fs))"
    using Cons.prems(6) by (simp add: sql_files_def split: if_splits)
  have fresh_name: "endswith (fst f) ''.sql'' \<Longrightarrow> script_name f \<notin> script_name ` set (sql_files fs)"
    using Cons.prems(6) by (simp add: sql_files_def)
  have agree1: "\<forall>g \<in> set (sql_files fs). deployed_hashes (script_name g) = map_of rows1 (script_name g)"
  proof
    fix g assume g: "g \<in> set (sql_files fs)"
    then have "deployed_hashes (script_name g) = map_of rows (script_name g)"
      using Cons.prems(7) by (simp add: sql_files_def)
    moreover have "map_of rows1 (script_name g) = map_of rows (script_name g)"
    proof (cases "endswith (fst f) ''.sql''")
      case True
      from fresh_name [OF True] g have "script_name g \<noteq> script_name f"
        by (metis image_eqI)
      with r1(4) True show ?thesis by simp
    next
      case False
      with r1(4) show ?thesis by simp
    qed
    ultimately show "deployed_hashes (script_name g) = map_of rows1 (script_name g)"
      by simp
  qed
  from Cons.IH [OF r Cons.prems(2) r1(1,2,3) dfs agree1] obtain rows' where
    r': "meta (working st') = Some rows'" "meta (committed st') = Some rows'"
        "distinct (map fst rows')"
        "\<forall>g \<in> set (sql_files fs). map_of rows' (script_name g) = Some (sha256_hex w (snd g))"
        "\<forall>n. n \<notin> script_name ` set (sql_files fs) \<longrightarrow> map_of rows' n = map_of rows1 n"
    by blast
  have all: "\<forall>g \<in> set (sql_files (f # fs)). map_of rows' (script_name g) = Some (sha256_hex w (snd g))"
  proof
    fix g assume g: "g \<in> set (sql_files (f # fs))"
    show "map_of rows' (script_name g) = Some (sha256_hex w (snd g))"
    proof (cases "g \<in> set (sql_files fs)")
      case True
      with r'(4) show ?thesis by simp
    next
      case False
      with g have gf: "g = f" and sql: "endswith (fst f) ''.sql''"
        by (auto simp: sql_files_def split: if_splits)
      from fresh_name [OF sql] r'(5) have "map_of rows' (script_name f) = map_of rows1 (script_name f)"
        by simp
      with r1(4) sql gf show ?thesis by simp
    qed
  qed
  have others: "\<forall>n. n \<notin> script_name ` set (sql_files (f # fs)) \<longrightarrow> map_of rows' n = map_of rows n"
  proof (intro allI impI)
    fix n assume n: "n \<notin> script_name ` set (sql_files (f # fs))"
    then have "n \<notin> script_name ` set (sql_files fs)"
      by (auto simp: sql_files_def split: if_splits)
    with r'(5) have "map_of rows' n = map_of rows1 n" by simp
    also have "\<dots> = map_of rows n"
      using r1(4) n by (auto simp: sql_files_def split: if_splits)
    finally show "map_of rows' n = map_of rows n" .
  qed
  from r'(1,2,3) all others show ?case by blast
qed

lemma run_exit_0:
  assumes "exit_code (deploy_stored_procedures w st) = 0"
  shows "\<exists>u1 st1 u2 st2 dh st3 files c st4.
           get_db_connection w st = Inr (u1, st1) \<and>
           ensure_metadata_table_exists w st1 = Inr (u2, st2) \<and>
           get_deployed_hashes w st2 = (dh, st3) \<and>
           scripts_dir w = Some files \<and>
           deploy_files w dh files \<lparr>deployed_count = 0, skipped_count = 0, error_count = 0\<rparr> st3
             = Inr (c, st4) \<and>
           error_count c = 0 \<and>
           committed (final (deploy_stored_procedures w st)) = committed st4"
proof (cases "get_db_connection w st")
  case (Inl x)
  with get_db_connection_exit [OF Inl] assms show ?thesis
    by (simp add: deploy_stored_procedures_def fatal_def)
next
  case (Inr y)
  obtain u1 st1 where y: "y = (u1, st1)" by (cases y)
  show ?thesis
  proof (cases "ensure_metadata_table_exists w st1")
    case (Inl x)
    with ensure_exit [OF Inl] assms \<open>get_db_connection w st = Inr y\<close> y show ?thesis
      by (simp add: deploy_stored_procedures_def fatal_def)
  next
    case (Inr z)
    obtain u2 st2 where z: "z = (u2, st2)" by (cases z)
    obtain dh st3 where g: "get_deployed_hashes w st2 = (dh, st3)"
      by (cases "get_deployed_hashes w st2")
    note pre = \<open>get_db_connection w st = Inr y\<close> y Inr z g
    show ?thesis
    proof (cases "scripts_dir w")
      case None
      with pre assms show ?thesis
        by (simp add: deploy_stored_procedures_def fatal_def)
    next
      case (Some files)
      show ?thesis
      proof (cases "deploy_files w dh files
                      \<lparr>deployed_count = 0, skipped_count = 0, error_count = 0\<rparr> st3")
        case (Inl x)
        with deploy_files_exit [OF Inl] pre Some assms show ?thesis
          by (simp add: deploy_stored_procedures_def fatal_def)
      next
        case (Inr v)
        obtain c st4 where v: "v = (c, st4)" by (cases v)
        with Inr pre Some assms have "error_count c = 0"
          by (auto simp: deploy_stored_procedures_def Let_def split: if_splits)
        with v Inr pre Some show ?thesis
          by (simp add: deploy_stored_procedures_def Let_def st_defs)
      qed
    qed
  qed
qed

text \<open>
  C2, as the code has it. A first run that ends with exit code 0 has recorded the
  fingerprint of every script, so a second run on the same files skips all of them,
  provided that the script names are distinct, that the scripts' statements leave the
  metadata table alone, that the table has one row per name, and that the second run can
  read the table.
\<close>

theorem second_run_skips_all:
  assumes "scripts_dir w = Some files"
    and "distinct (map script_name (sql_files files))"
    and "preserves_metadata w"
    and "\<not> db_fault w CallSelect"
    and "\<forall>rows. meta d = Some rows \<longrightarrow> distinct (map fst rows)"
    and "exit_code (deploy_stored_procedures w (start d)) = 0"
  shows "summary (deploy_stored_procedures w
                    (start (committed (final (deploy_stored_procedures w (start d))))))
           = Some \<lparr>deployed_count = 0, skipped_count = length (sql_files files), error_count = 0\<rparr>
       \<and> exit_code (deploy_stored_procedures w
                      (start (committed (final (deploy_stored_procedures w (start d)))))) = 0"
proof -
  let ?zero = "\<lparr>deployed_count = 0, skipped_count = 0, error_count = 0\<rparr>"
  from run_exit_0 [OF assms(6)] assms(1) obtain u1 st1 u2 st2 dh st3 c st4 where
    first: "get_db_connection w (start d) = Inr (u1, st1)"
      "ensure_metadata_table_exists w st1 = Inr (u2, st2)"
      "get_deployed_hashes w st2 = (dh, st3)"
      "deploy_files w dh files ?zero st3 = Inr (c, st4)"
      "error_count c = 0"
      "committed (final (deploy_stored_procedures w (start d))) = committed st4"
    by auto
  let ?d2 = "committed st4"
  from get_db_connection_quiet [of w "start d"] first(1)
  have st1: "committed st1 = d" "working st1 = d"
    by (simp_all add: start_def)
  from ensure_ok [OF first(2)] st1
  have st2: "committed st2 = create_table d" "working st2 = create_table d"
    by simp_all
  from first(2) have nocreate: "\<not> db_fault w CallCreate"
    by (auto simp: ensure_metadata_table_exists_def Let_def sys_exit_def split: if_splits)
  obtain rows0 where rows0: "meta (create_table d) = Some rows0" "distinct (map fst rows0)"
    using assms(5) by (cases "meta d") (auto simp: create_table_def)
  from first(3) st2 rows0 assms(4)
  have dh: "dh = map_of rows0" and st3: "committed st3 = create_table d" "working st3 = create_table d"
    by (auto simp: get_deployed_hashes_def Let_def st_defs fold_upd_map_of)
  have "\<forall>f \<in> set (sql_files files). dh (script_name f) = map_of rows0 (script_name f)"
    by (simp add: dh)
  from deploy_files_records [OF assms(3) first(4,5) _ _ rows0(2) assms(2) this] st3 rows0(1)
  obtain rows' where
    rows': "meta ?d2 = Some rows'" "distinct (map fst rows')"
      "\<forall>f \<in> set (sql_files files). map_of rows' (script_name f) = Some (sha256_hex w (snd f))"
    by auto
  from get_db_connection_independent [OF first(1), of "start ?d2"] obtain t1 where
    t1: "get_db_connection w (start ?d2) = Inr (u1, t1)"
    by blast
  from get_db_connection_quiet [of w "start ?d2"] t1
  have t1s: "committed t1 = ?d2" "working t1 = ?d2"
    by (simp_all add: start_def)
  obtain t2 where t2: "ensure_metadata_table_exists w t1 = Inr ((), t2)"
    using nocreate by (simp add: ensure_metadata_table_exists_def Let_def)
  from ensure_ok [OF t2] t1s rows'(1)
  have t2s: "working t2 = ?d2"
    by (simp add: create_table_def)
  have "get_deployed_hashes w t2 = (map_of rows', emit SelectHashes t2)"
    using t2s rows'(1,2) assms(4)
    by (simp add: get_deployed_hashes_def Let_def st_defs fold_upd_map_of)
  then obtain t3 where t3: "get_deployed_hashes w t2 = (map_of rows', t3)"
    by blast
  from deploy_files_all_skipped [of files "map_of rows'" w ?zero t3] rows'(3)
  obtain t4 where
    t4: "deploy_files w (map_of rows') files ?zero t3
           = Inr (?zero\<lparr>skipped_count := skipped_count ?zero + length (sql_files files)\<rparr>, t4)"
    by blast
  from t1 t2 t3 t4 assms(1) first(6) show ?thesis
    by (simp add: deploy_stored_procedures_def Let_def)
qed

lemma preserves_metadata_demo: "preserves_metadata (demo_world dir)"
  by (auto simp: preserves_metadata_def demo_world_def demo_sql_def split: if_splits)

lemma run_two_scripts:
  "exit_code (deploy_stored_procedures (demo_world (Some two_scripts)) (start fresh)) = 0"
  by (simp add: run_defs st_defs demo_defs two_scripts_def split_statements_demo
        split_statements_A numeral_nat)

theorem second_run_skips_all_witness:
  "summary (deploy_stored_procedures (demo_world (Some two_scripts))
      (start (committed (final (deploy_stored_procedures (demo_world (Some two_scripts)) (start fresh))))))
     = Some \<lparr>deployed_count = 0, skipped_count = length (sql_files two_scripts), error_count = 0\<rparr>
   \<and> exit_code (deploy_stored_procedures (demo_world (Some two_scripts))
      (start (committed (final (deploy_stored_procedures (demo_world (Some two_scripts)) (start fresh))))))
     = 0"
proof (rule second_run_skips_all)
  show "scripts_dir (demo_world (Some two_scripts)) = Some two_scripts"
    by (simp add: demo_world_def)
  show "distinct (map script_name (sql_files two_scripts))"
    by (simp add: two_scripts_def sql_files_def script_name_def endswith_def splitext_root_def)
  show "preserves_metadata (demo_world (Some two_scripts))"
    by (rule preserves_metadata_demo)
  show "\<not> db_fault (demo_world (Some two_scripts)) CallSelect"
    by (simp add: demo_world_def)
  show "\<forall>rows. meta fresh = Some rows \<longrightarrow> distinct (map fst rows)"
    by (simp add: fresh_def)
  show "exit_code (deploy_stored_procedures (demo_world (Some two_scripts)) (start fresh)) = 0"
    by (rule run_two_scripts)
qed

text \<open>
  C2, as stated, fails for a script that fails: its fingerprint is not recorded, so the
  second run executes it again and reports one error and nothing skipped.
\<close>

lemma run_failing_script:
  "committed (final (deploy_stored_procedures (demo_world (Some [(''a.sql'', ''FAIL'')])) (start fresh)))
     = empty_table"
  by (simp add: run_defs st_defs demo_defs split_statements_demo numeral_nat)

theorem second_run_after_error_counterexample:
  "summary (deploy_stored_procedures (demo_world (Some [(''a.sql'', ''FAIL'')]))
      (start (committed (final
         (deploy_stored_procedures (demo_world (Some [(''a.sql'', ''FAIL'')])) (start fresh))))))
     = Some \<lparr>deployed_count = 0, skipped_count = 0, error_count = 1\<rparr>"
  by (simp only: run_failing_script)
     (simp add: run_defs st_defs demo_defs split_statements_demo numeral_nat)

section \<open>Change detection\<close>





end
